theory Spec2Isabelle
  imports Complex_Main
begin

section \<open>Python values shared by the models\<close>

text \<open>
  The exceptions the modelled functions raise or let through.  A function that can raise
  returns \<open>pyerror + 'a\<close>, with \<open>Inl\<close> for the exception.
\<close>

datatype pyerror =
    TypeError string
  | ValueError string
  | OverflowError string
  | IndexError string
  | ParserError string
  | UnicodeError string
  | MemoryError string
  | FileNotFoundError string
  | FileExistsError string
  | NotADirectoryError string
  | IsADirectoryError string

section \<open>Sum of squares over a fixed range (\<open>f_843\<close>)\<close>

text \<open>
  \<^verbatim>\<open>POSSIBLE_NUMBERS = np.arange(1, 11)\<close>: the integers 1 to 10.
\<close>

definition POSSIBLE_NUMBERS :: "int list" where
  "POSSIBLE_NUMBERS = [1..10]"

text \<open>
  \<^verbatim>\<open>math.pow(x, y)\<close> converts to float.  Every value that occurs here is an integer of
  at most three digits, which floats hold exactly, so the float is the real number.
\<close>

definition math_pow :: "int \<Rightarrow> nat \<Rightarrow> real" where
  "math_pow x y = (of_int x) ^ y"

text \<open>
  The loop of \<open>f_843\<close>, with the list \<open>sums\<close> it appends to (here \<open>acc\<close>).  A Python slice
  \<^verbatim>\<open>a[:n]\<close> with \<open>n\<close> beyond the length stops at the end: \<open>take\<close>.
\<close>

fun f_843_loop :: "'a list list \<Rightarrow> real list \<Rightarrow> real list" where
  "f_843_loop [] acc = acc"
| "f_843_loop (sublist # rest) acc =
     (let total = sum_list (map (\<lambda>x. math_pow x 2) (take (length sublist) POSSIBLE_NUMBERS))
      in f_843_loop rest (acc @ [total]))"

definition f_843 :: "'a list list \<Rightarrow> real list" where
  "f_843 list_of_lists = f_843_loop list_of_lists []"

section \<open>Next business day (\<open>f_32\<close>)\<close>

text \<open>
  A Python \<^verbatim>\<open>datetime\<close> is a calendar day and a time of day.  The day is held as its
  proleptic Gregorian ordinal (\<^verbatim>\<open>toordinal()\<close>: 1 is 0001-01-01), the representation in
  which \<^verbatim>\<open>datetime + timedelta(days=n)\<close> and \<^verbatim>\<open>weekday()\<close> are computed.
\<close>

record datetime =
  ordinal :: int
  hour :: nat
  minute :: nat
  second :: nat
  microsecond :: nat

text \<open>\<^verbatim>\<open>date.max.toordinal()\<close>, the ordinal of 9999-12-31.\<close>

definition MAXORDINAL :: int where
  "MAXORDINAL = 3652059"

text \<open>
  The calendar arithmetic of the \<^verbatim>\<open>datetime\<close> module (\<^verbatim>\<open>_is_leap\<close>,
  \<^verbatim>\<open>_days_before_year\<close>, \<^verbatim>\<open>_days_in_month\<close>, \<^verbatim>\<open>_days_before_month\<close>,
  \<^verbatim>\<open>_ymd2ord\<close>), used to write dates as year, month and day.
\<close>

definition is_leap :: "int \<Rightarrow> bool" where
  "is_leap year = (year mod 4 = 0 \<and> (year mod 100 \<noteq> 0 \<or> year mod 400 = 0))"

definition days_before_year :: "int \<Rightarrow> int" where
  "days_before_year year =
     (let y = year - 1 in y * 365 + y div 4 - y div 100 + y div 400)"

definition DAYS_IN_MONTH :: "int list" where
  "DAYS_IN_MONTH = [-1, 31, 28, 31, 30, 31, 30, 31, 31, 30, 31, 30, 31]"

definition DAYS_BEFORE_MONTH :: "int list" where
  "DAYS_BEFORE_MONTH = [-1, 0, 31, 59, 90, 120, 151, 181, 212, 243, 273, 304, 334]"

definition days_in_month :: "int \<Rightarrow> int \<Rightarrow> int" where
  "days_in_month year month =
     (if month = 2 \<and> is_leap year then 29 else DAYS_IN_MONTH ! nat month)"

definition days_before_month :: "int \<Rightarrow> int \<Rightarrow> int" where
  "days_before_month year month =
     DAYS_BEFORE_MONTH ! nat month + (if month > 2 \<and> is_leap year then 1 else 0)"

definition ymd2ord :: "int \<Rightarrow> int \<Rightarrow> int \<Rightarrow> int" where
  "ymd2ord year month day = days_before_year year + days_before_month year month + day"

definition valid_ymd :: "int \<Rightarrow> int \<Rightarrow> int \<Rightarrow> bool" where
  "valid_ymd year month day =
     (1 \<le> year \<and> year \<le> 9999 \<and> 1 \<le> month \<and> month \<le> 12
      \<and> 1 \<le> day \<and> day \<le> days_in_month year month)"

text \<open>\<^verbatim>\<open>datetime(year, month, day, 0, 0)\<close>, for a date that \<open>valid_ymd\<close> accepts.\<close>

definition midnight :: "int \<Rightarrow> int \<Rightarrow> int \<Rightarrow> datetime" where
  "midnight year month day =
     \<lparr>ordinal = ymd2ord year month day, hour = 0, minute = 0, second = 0, microsecond = 0\<rparr>"

definition valid_datetime :: "datetime \<Rightarrow> bool" where
  "valid_datetime dt =
     (1 \<le> ordinal dt \<and> ordinal dt \<le> MAXORDINAL \<and> hour dt < 24 \<and> minute dt < 60
      \<and> second dt < 60 \<and> microsecond dt < 1000000)"

text \<open>\<^verbatim>\<open>weekday()\<close>: Monday is 0 and Sunday is 6.\<close>

definition weekday_of_ordinal :: "int \<Rightarrow> int" where
  "weekday_of_ordinal n = (n + 6) mod 7"

definition weekday :: "datetime \<Rightarrow> int" where
  "weekday dt = weekday_of_ordinal (ordinal dt)"

text \<open>
  \<^verbatim>\<open>dt + timedelta(days=n)\<close>: the time of day is kept, and a day outside
  0001-01-01 .. 9999-12-31 raises \<^verbatim>\<open>OverflowError\<close>.
\<close>

definition add_days :: "datetime \<Rightarrow> int \<Rightarrow> pyerror + datetime" where
  "add_days dt n =
     (let n' = ordinal dt + n
      in if 1 \<le> n' \<and> n' \<le> MAXORDINAL then Inr (dt\<lparr>ordinal := n'\<rparr>)
         else Inl (OverflowError ''date value out of range''))"

text \<open>
  Lines 26 to 31: the loop \<^verbatim>\<open>while True\<close> that adds one day and stops at the first day
  whose weekday is below 5.  Every iteration moves one day closer to the last day the type
  can hold, where the addition raises, so the recursion is well founded.
\<close>

function f_32_loop :: "datetime \<Rightarrow> pyerror + datetime" where
  "f_32_loop next_day =
     (case add_days next_day 1 of
        Inl e \<Rightarrow> Inl e
      | Inr next_day' \<Rightarrow>
          if 0 \<le> weekday next_day' \<and> weekday next_day' < 5 then Inr next_day'
          else f_32_loop next_day')"
  by pat_completeness auto
termination
proof (relation "measure (\<lambda>d. nat (MAXORDINAL + 1 - ordinal d))")
  show "wf (measure (\<lambda>d. nat (MAXORDINAL + 1 - ordinal d)))" by simp
next
  fix next_day next_day'
  assume "add_days next_day 1 = Inr next_day'"
  then have "ordinal next_day' = ordinal next_day + 1 \<and> ordinal next_day' \<le> MAXORDINAL"
    by (auto simp: add_days_def Let_def split: if_splits)
  then show "(next_day', next_day) \<in> measure (\<lambda>d. nat (MAXORDINAL + 1 - ordinal d))"
    by simp
qed

declare f_32_loop.simps [simp del]

text \<open>
  The same loop with a bound on the number of iterations: \<open>None\<close> when the bound is
  used up before the loop has ended.  It serves to count iterations.
\<close>

fun f_32_loop_upto :: "nat \<Rightarrow> datetime \<Rightarrow> (pyerror + datetime) option" where
  "f_32_loop_upto 0 next_day = None"
| "f_32_loop_upto (Suc n) next_day =
     (case add_days next_day 1 of
        Inl e \<Rightarrow> Some (Inl e)
      | Inr next_day' \<Rightarrow>
          if 0 \<le> weekday next_day' \<and> weekday next_day' < 5 then Some (Inr next_day')
          else f_32_loop_upto n next_day')"

declare f_32_loop_upto.simps [simp del]

text \<open>
  \<open>f_32\<close> itself.  \<^verbatim>\<open>dateutil.parser.parse\<close> is a library function: it is a
  parameter, returning the parsed \<^verbatim>\<open>datetime\<close> or the parser's exception.
\<close>

definition f_32 :: "(string \<Rightarrow> pyerror + datetime) \<Rightarrow> string \<Rightarrow> pyerror + datetime" where
  "f_32 parse date_str =
     (case parse date_str of
        Inl e \<Rightarrow> Inl e
      | Inr given_date \<Rightarrow> f_32_loop given_date)"

text \<open>
  A parser for the documented input format \<^verbatim>\<open>yyyy-mm-dd\<close>, on which
  \<^verbatim>\<open>dateutil.parser.parse\<close> returns midnight of that date.  It is used to run \<open>f_32\<close>
  on the strings of the documented examples.
\<close>

definition digit_value :: "char \<Rightarrow> int option" where
  "digit_value c =
     (let n = (of_char c :: nat)
      in if 48 \<le> n \<and> n \<le> 57 then Some (int n - 48) else None)"

fun digits_value :: "int \<Rightarrow> string \<Rightarrow> int option" where
  "digits_value acc [] = Some acc"
| "digits_value acc (c # cs) =
     (case digit_value c of None \<Rightarrow> None | Some v \<Rightarrow> digits_value (10 * acc + v) cs)"

definition parse_ymd :: "string \<Rightarrow> pyerror + datetime" where
  "parse_ymd s =
     (if length s = 10 \<and> s ! 4 = CHR ''-'' \<and> s ! 7 = CHR ''-'' then
        (case (digits_value 0 (take 4 s), digits_value 0 (take 2 (drop 5 s)),
               digits_value 0 (drop 8 s)) of
           (Some y, Some m, Some d) \<Rightarrow>
             if valid_ymd y m d then Inr (midnight y m d)
             else Inl (ParserError s)
         | _ \<Rightarrow> Inl (ParserError s))
      else Inl (ParserError s))"

text \<open>The loop's exit test \<^verbatim>\<open>0 <= next_day.weekday() < 5\<close>, on an ordinal.\<close>

definition is_business_day :: "int \<Rightarrow> bool" where
  "is_business_day n = (0 \<le> weekday_of_ordinal n \<and> weekday_of_ordinal n < 5)"

text \<open>
  An auxiliary function for the proofs: the number of days to the next business day, by
  the weekday of the starting day (three from a Friday, two from a Saturday, else one).
\<close>

definition days_to_next :: "int \<Rightarrow> int" where
  "days_to_next n =
     (if weekday_of_ordinal n = 4 then 3 else if weekday_of_ordinal n = 5 then 2 else 1)"

section \<open>Random table of computed size (\<open>f_391\<close>)\<close>

text \<open>\<^verbatim>\<open>RANGE = (1, 100)\<close>.\<close>

definition RANGE :: "int \<times> int" where
  "RANGE = (1, 100)"

text \<open>
  A two-dimensional array or data frame of integers: its shape and its rows.  The shape is
  kept apart from the rows, since a table with no rows still has a number of columns.
\<close>

record int_table =
  n_rows :: nat
  n_columns :: nat
  cells :: "int list list"

text \<open>
  \<^verbatim>\<open>xs[i]\<close> for a constant index \<open>i \<ge> 0\<close>: \<^verbatim>\<open>IndexError\<close> beyond the end.
\<close>

definition subscript :: "'a list \<Rightarrow> nat \<Rightarrow> pyerror + 'a" where
  "subscript xs i =
     (if i < length xs then Inr (xs ! i) else Inl (IndexError ''list index out of range''))"

text \<open>
  The largest value of numpy's index type \<^verbatim>\<open>npy_intp\<close> (64 bits), and the size in bytes
  of one cell of the array (\<^verbatim>\<open>int64\<close>, the default type of \<^verbatim>\<open>randint\<close>).
\<close>

definition MAX_INTP :: int where
  "MAX_INTP = 2 ^ 63 - 1"

definition ITEMSIZE :: int where
  "ITEMSIZE = 8"

text \<open>
  The check numpy makes of the dimensions when it creates an array, one dimension after
  the other, with the number of bytes counted so far: a dimension 0 is passed over, a
  negative one is refused, and so is a size in bytes beyond the index type.  The result is
  the number of bytes of the dimensions that are not 0.
\<close>

fun check_dimensions :: "int \<Rightarrow> int list \<Rightarrow> pyerror + int" where
  "check_dimensions nbytes [] = Inr nbytes"
| "check_dimensions nbytes (d # ds) =
     (if d = 0 then check_dimensions nbytes ds
      else if d < 0 then Inl (ValueError ''negative dimensions are not allowed'')
      else if MAX_INTP < nbytes * d then
        Inl (ValueError ''array is too big; `arr.size * arr.dtype.itemsize` is larger than the maximum possible size.'')
      else check_dimensions (nbytes * d) ds)"

text \<open>
  \<^verbatim>\<open>np.empty((rows, columns), np.int64)\<close>, the array \<^verbatim>\<open>randint\<close> fills: the number of
  bytes it takes.  A dimension outside the index type is refused first; then the
  dimensions are checked; then the memory is asked for, and \<open>can_allocate n\<close> tells whether
  the process gets \<open>n\<close> bytes (it is the machine's answer, a parameter).  An array with a
  dimension 0 has no cells and takes no memory.
\<close>

definition empty_array :: "(nat \<Rightarrow> bool) \<Rightarrow> int \<times> int \<Rightarrow> pyerror + nat" where
  "empty_array can_allocate dims =
     (if fst dims < - MAX_INTP - 1 \<or> MAX_INTP < fst dims
         \<or> snd dims < - MAX_INTP - 1 \<or> MAX_INTP < snd dims then
        Inl (ValueError ''Maximum allowed dimension exceeded'')
      else
        case check_dimensions ITEMSIZE [fst dims, snd dims] of
          Inl e \<Rightarrow> Inl e
        | Inr nbytes \<Rightarrow>
            let needed = (if fst dims = 0 \<or> snd dims = 0 then 0 else nat nbytes)
            in if can_allocate needed then Inr needed
               else Inl (MemoryError ''Unable to allocate array''))"

text \<open>
  \<^verbatim>\<open>np.random.randint(low, high, size=(rows, columns))\<close>.  The generator is a library
  object with hidden state; its raw output is the parameter \<open>draws\<close> (the \<open>k\<close>-th raw
  draw of this call), and each cell is a raw draw reduced into \<open>low \<le> v < high\<close>, cell
  \<open>(i, j)\<close> from draw \<open>i * columns + j\<close>.  A size whose product is 0 gives the empty
  array at once; otherwise an empty range raises \<^verbatim>\<open>ValueError\<close>, and then the array is
  created and filled.  What raises in the creation of the array raises here.
\<close>

definition randint ::
  "(nat \<Rightarrow> bool) \<Rightarrow> (nat \<Rightarrow> nat) \<Rightarrow> int \<Rightarrow> int \<Rightarrow> int \<times> int \<Rightarrow> pyerror + int_table" where
  "randint can_allocate draws low high dims =
     (if fst dims * snd dims \<noteq> 0 \<and> high \<le> low then Inl (ValueError ''low >= high'')
      else
        case empty_array can_allocate dims of
          Inl e \<Rightarrow> Inl e
        | Inr needed \<Rightarrow>
            let r = nat (fst dims); c = nat (snd dims)
            in Inr \<lparr>n_rows = r, n_columns = c,
                     cells = map (\<lambda>i. map (\<lambda>j. low + int (draws (i * c + j)) mod (high - low))
                                           [0..<c])
                                 [0..<r]\<rparr>)"

text \<open>\<^verbatim>\<open>pd.DataFrame(array)\<close> keeps the shape and the values of the array.\<close>

definition DataFrame :: "int_table \<Rightarrow> int_table" where
  "DataFrame random_array = random_array"

text \<open>Lines 26 to 29.\<close>

definition f_391 ::
  "(nat \<Rightarrow> bool) \<Rightarrow> (nat \<Rightarrow> nat) \<Rightarrow> int list list \<Rightarrow> pyerror + int_table" where
  "f_391 can_allocate draws L =
     (case subscript L 0 of Inl e \<Rightarrow> Inl e | Inr L0 \<Rightarrow>
      case subscript L0 0 of Inl e \<Rightarrow> Inl e | Inr a \<Rightarrow>
      case subscript L0 1 of Inl e \<Rightarrow> Inl e | Inr b \<Rightarrow>
      case subscript L 1 of Inl e \<Rightarrow> Inl e | Inr L1 \<Rightarrow>
      case subscript L1 0 of Inl e \<Rightarrow> Inl e | Inr c \<Rightarrow>
      case subscript L1 1 of Inl e \<Rightarrow> Inl e | Inr d \<Rightarrow>
        (let rows = a * b; columns = c * d
         in case randint can_allocate draws (fst RANGE) (snd RANGE) (rows, columns) of
              Inl e \<Rightarrow> Inl e
            | Inr random_array \<Rightarrow> Inr (DataFrame random_array)))"

text \<open>
  When numpy creates the array of a shape with no negative dimension: both dimensions
  and the size in bytes lie within the index type, and the machine has the memory.
\<close>

definition allocatable :: "(nat \<Rightarrow> bool) \<Rightarrow> int \<Rightarrow> int \<Rightarrow> bool" where
  "allocatable can_allocate rows columns =
     (ITEMSIZE * (if rows = 0 then 1 else rows) * (if columns = 0 then 1 else columns) \<le> MAX_INTP
      \<and> can_allocate (nat (ITEMSIZE * rows * columns)))"

text \<open>
  A raw output to run the model on, the draws 3, 10, 17, ..., and a machine that has
  a gigabyte to give.
\<close>

definition example_memory :: "nat \<Rightarrow> bool" where
  "example_memory n = (n \<le> 2 ^ 30)"

definition example_draws :: "nat \<Rightarrow> nat" where
  "example_draws k = 7 * k + 3"

section \<open>Reverse DNS over a list of addresses (\<open>f_220\<close>)\<close>

subsection \<open>The pattern and \<^verbatim>\<open>re.match\<close>\<close>

text \<open>
  Regular expressions, as far as the pattern of \<open>f_220\<close> needs them: a character class,
  concatenation and repetition.  \<open>Nothing\<close>, \<open>Blank\<close> and \<open>Either\<close> arise when a
  pattern is matched character by character.
\<close>

datatype regex =
    Nothing
  | Blank
  | Chars "char list"
  | Either regex regex
  | Then regex regex
  | Many regex

text \<open>\<^verbatim>\<open>r+\<close> and \<^verbatim>\<open>r{n}\<close>.\<close>

definition one_or_more :: "regex \<Rightarrow> regex" where
  "one_or_more r = Then r (Many r)"

primrec times :: "nat \<Rightarrow> regex \<Rightarrow> regex" where
  "times 0 r = Blank"
| "times (Suc n) r = Then r (times n r)"

text \<open>\<^verbatim>\<open>IP_REGEX = r'[0-9]+(?:\.[0-9]+){3}'\<close>.\<close>

definition IP_REGEX :: regex where
  "IP_REGEX =
     Then (one_or_more (Chars ''0123456789''))
          (times 3 (Then (Chars ''.'') (one_or_more (Chars ''0123456789''))))"

text \<open>Whether a pattern matches the empty string, and what is left of it after a character.\<close>

primrec matches_empty :: "regex \<Rightarrow> bool" where
  "matches_empty Nothing = False"
| "matches_empty Blank = True"
| "matches_empty (Chars cs) = False"
| "matches_empty (Either r s) = (matches_empty r \<or> matches_empty s)"
| "matches_empty (Then r s) = (matches_empty r \<and> matches_empty s)"
| "matches_empty (Many r) = True"

primrec after_char :: "char \<Rightarrow> regex \<Rightarrow> regex" where
  "after_char c Nothing = Nothing"
| "after_char c Blank = Nothing"
| "after_char c (Chars cs) = (if c \<in> set cs then Blank else Nothing)"
| "after_char c (Either r s) = Either (after_char c r) (after_char c s)"
| "after_char c (Then r s) =
     (if matches_empty r then Either (Then (after_char c r) s) (after_char c s)
      else Then (after_char c r) s)"
| "after_char c (Many r) = Then (after_char c r) (Many r)"

text \<open>
  \<^verbatim>\<open>re.match(pattern, string)\<close> as a truth value: the pattern matches at the start of
  the string, which may go on after the match.
\<close>

fun re_match :: "regex \<Rightarrow> string \<Rightarrow> bool" where
  "re_match r [] = matches_empty r"
| "re_match r (c # cs) = (matches_empty r \<or> re_match (after_char c r) cs)"

text \<open>The strings a pattern stands for, to say what \<open>re_match\<close> decides.\<close>

inductive_set repeats :: "string set \<Rightarrow> string set" for A :: "string set" where
  repeats_none: "[] \<in> repeats A"
| repeats_more: "u \<in> A \<Longrightarrow> v \<in> repeats A \<Longrightarrow> u @ v \<in> repeats A"

primrec lang :: "regex \<Rightarrow> string set" where
  "lang Nothing = {}"
| "lang Blank = {[]}"
| "lang (Chars cs) = {[c] | c. c \<in> set cs}"
| "lang (Either r s) = lang r \<union> lang s"
| "lang (Then r s) = {u @ v | u v. u \<in> lang r \<and> v \<in> lang s}"
| "lang (Many r) = repeats (lang r)"

text \<open>A non-empty string of decimal digits.\<close>

definition is_number :: "string \<Rightarrow> bool" where
  "is_number w = (w \<noteq> [] \<and> set w \<subseteq> set ''0123456789'')"

subsection \<open>The dictionary and the resolver\<close>

text \<open>
  A Python \<^verbatim>\<open>dict\<close> keeps its keys in the order of their first insertion: an
  association list without repeated keys.  \<^verbatim>\<open>d[k] = v\<close> replaces the value of a key
  that is present, in place, and appends a new key.
\<close>

fun dict_set :: "('k \<times> 'v) list \<Rightarrow> 'k \<Rightarrow> 'v \<Rightarrow> ('k \<times> 'v) list" where
  "dict_set [] k v = [(k, v)]"
| "dict_set ((k', v') # d) k v =
     (if k' = k then (k', v) # d else (k', v') # dict_set d k v)"

definition dict_keys :: "('k \<times> 'v) list \<Rightarrow> 'k list" where
  "dict_keys d = map fst d"

text \<open>
  What a call of \<^verbatim>\<open>socket.gethostbyaddr\<close> does: it returns the triple of host name,
  aliases and addresses, or raises \<^verbatim>\<open>socket.herror\<close>, \<^verbatim>\<open>socket.gaierror\<close> or some
  other exception.  The resolver is the network's: it is a parameter, and its answer may
  change from one call to the next, so it is given the number of the call.
\<close>

datatype gethost_result =
    Host string "string list" "string list"
  | HError
  | GAIError
  | Raises pyerror

text \<open>
  Lines 27 to 35: the loop over \<open>ip_addresses\<close>, with the dictionary built so far and
  the number of lookups made.
\<close>

fun f_220_loop ::
  "(nat \<Rightarrow> string \<Rightarrow> gethost_result) \<Rightarrow> nat \<Rightarrow> string list
     \<Rightarrow> (string \<times> string option) list \<Rightarrow> pyerror + (string \<times> string option) list" where
  "f_220_loop gethostbyaddr n [] hostnames = Inr hostnames"
| "f_220_loop gethostbyaddr n (ip # rest) hostnames =
     (if re_match IP_REGEX ip then
        (case gethostbyaddr n ip of
           Host hostname aliases addrs \<Rightarrow>
             f_220_loop gethostbyaddr (Suc n) rest (dict_set hostnames ip (Some hostname))
         | HError \<Rightarrow> f_220_loop gethostbyaddr (Suc n) rest (dict_set hostnames ip None)
         | GAIError \<Rightarrow> f_220_loop gethostbyaddr (Suc n) rest (dict_set hostnames ip None)
         | Raises e \<Rightarrow> Inl e)
      else f_220_loop gethostbyaddr n rest hostnames)"

definition f_220 ::
  "(nat \<Rightarrow> string \<Rightarrow> gethost_result) \<Rightarrow> string list
     \<Rightarrow> pyerror + (string \<times> string option) list" where
  "f_220 gethostbyaddr ip_addresses = f_220_loop gethostbyaddr 0 ip_addresses []"

text \<open>
  A resolver none of whose answers has the empty string for the host name.  Nothing in
  \<open>f_220\<close> checks the name.
\<close>

definition names_nonempty :: "(nat \<Rightarrow> string \<Rightarrow> gethost_result) \<Rightarrow> bool" where
  "names_nonempty gethostbyaddr =
     (\<forall>n ip hostname aliases addrs.
        gethostbyaddr n ip = Host hostname aliases addrs \<longrightarrow> hostname \<noteq> [])"

text \<open>The resolver raises nothing but the two exceptions \<open>f_220\<close> catches.\<close>

definition raises_only_caught :: "(nat \<Rightarrow> string \<Rightarrow> gethost_result) \<Rightarrow> bool" where
  "raises_only_caught gethostbyaddr = (\<forall>n ip e. gethostbyaddr n ip \<noteq> Raises e)"

text \<open>The elements of a list in the order of their first occurrence.\<close>

fun first_seen :: "'a list \<Rightarrow> 'a list" where
  "first_seen [] = []"
| "first_seen (x # xs) = x # filter (\<lambda>y. y \<noteq> x) (first_seen xs)"

text \<open>
  A resolver to run the model on: it knows the two public addresses of the documented
  example and fails on every other address.
\<close>

definition example_resolver :: "nat \<Rightarrow> string \<Rightarrow> gethost_result" where
  "example_resolver n ip =
     (if ip = ''8.8.8.8'' \<or> ip = ''8.8.4.4'' then Host ''dns.google'' [] [ip]
      else HError)"

text \<open>A resolver that answers every address with an empty host name.\<close>

definition nameless_resolver :: "nat \<Rightarrow> string \<Rightarrow> gethost_result" where
  "nameless_resolver n ip = Host [] [] [ip]"
section \<open>Traffic data written to a CSV file (\<open>f_410\<close>)\<close>

text \<open>\<^verbatim>\<open>VEHICLE_TYPES = ['Car', 'Bus', 'Truck', 'Bike']\<close>.\<close>

definition VEHICLE_TYPES :: "string list" where
  "VEHICLE_TYPES = [''Car'', ''Bus'', ''Truck'', ''Bike'']"

subsection \<open>The file system\<close>

text \<open>
  The part of the file system \<open>f_410\<close> touches: the directories that exist, and the text
  files with their lines, each under its path.
\<close>

record filesystem =
  dirs :: "string set"
  files :: "string \<Rightarrow> string list option"

text \<open>
  The operating system can refuse a call for a reason that this state does not hold: the
  permissions, an ancestor that is missing or is no directory, a name it does not accept,
  a full disk.  What it answers to \<^verbatim>\<open>os.makedirs(p)\<close> and to \<^verbatim>\<open>open(p, 'w+')\<close> is a
  parameter: the exception it raises, or \<open>None\<close> when it carries out the call.
\<close>

record opsys =
  mkdir_refused :: "string \<Rightarrow> pyerror option"
  open_refused :: "string \<Rightarrow> pyerror option"

text \<open>\<^verbatim>\<open>os.path.exists(p)\<close>; the empty path names nothing.\<close>

definition path_exists :: "filesystem \<Rightarrow> string \<Rightarrow> bool" where
  "path_exists fs p = (p \<noteq> [] \<and> (p \<in> dirs fs \<or> files fs p \<noteq> None))"

text \<open>
  \<^verbatim>\<open>os.makedirs(p)\<close>: \<^verbatim>\<open>FileNotFoundError\<close> for the empty path, \<^verbatim>\<open>FileExistsError\<close>
  for a path that exists.
\<close>

definition makedirs :: "opsys \<Rightarrow> filesystem \<Rightarrow> string \<Rightarrow> pyerror + filesystem" where
  "makedirs os fs p =
     (if p = [] then Inl (FileNotFoundError ''[Errno 2] No such file or directory'')
      else if path_exists fs p then Inl (FileExistsError ''[Errno 17] File exists'')
      else case mkdir_refused os p of
             Some e \<Rightarrow> Inl e
           | None \<Rightarrow> Inr (fs\<lparr>dirs := insert p (dirs fs)\<rparr>))"

text \<open>\<^verbatim>\<open>os.path.join(a, b)\<close> for a relative \<open>b\<close>.\<close>

definition path_join :: "string \<Rightarrow> string \<Rightarrow> string" where
  "path_join a b =
     (if a = [] then b else if last a = CHR ''/'' then a @ b else a @ ''/'' @ b)"

text \<open>
  \<^verbatim>\<open>os.path.dirname(p)\<close>: the path up to its last slash, without the slashes at its end
  unless it is made of slashes only.
\<close>

definition dirname :: "string \<Rightarrow> string" where
  "dirname p =
     (let head = rev (dropWhile (\<lambda>c. c \<noteq> CHR ''/'') (rev p))
      in if list_ex (\<lambda>c. c \<noteq> CHR ''/'') head then rev (dropWhile (\<lambda>c. c = CHR ''/'') (rev head))
         else head)"

text \<open>
  Opening a file with mode \<^verbatim>\<open>w+\<close> and writing lines to it replaces its content.  The
  file cannot be opened when the directory part of its path is a regular file
  (\<^verbatim>\<open>NotADirectoryError\<close>) or when the path is a directory (\<^verbatim>\<open>IsADirectoryError\<close>).
\<close>

definition write_lines :: "opsys \<Rightarrow> filesystem \<Rightarrow> string \<Rightarrow> string list \<Rightarrow> pyerror + filesystem" where
  "write_lines os fs p ls =
     (if files fs (dirname p) \<noteq> None then Inl (NotADirectoryError ''[Errno 20] Not a directory'')
      else if p \<in> dirs fs then Inl (IsADirectoryError ''[Errno 21] Is a directory'')
      else case open_refused os p of
             Some e \<Rightarrow> Inl e
           | None \<Rightarrow> Inr (fs\<lparr>files := (files fs)(p \<mapsto> ls)\<rparr>))"

subsection \<open>Rows and their text\<close>

text \<open>A cell of a row handed to \<^verbatim>\<open>csv.writer\<close>: a string or an integer.\<close>

datatype cell = Text string | Number int

text \<open>\<^verbatim>\<open>str(n)\<close> for an integer.\<close>

definition digit_char :: "nat \<Rightarrow> char" where
  "digit_char n = char_of (48 + n)"

fun str_nat :: "nat \<Rightarrow> string" where
  "str_nat n = (if n < 10 then [digit_char n] else str_nat (n div 10) @ [digit_char (n mod 10)])"

declare str_nat.simps [simp del]

definition str_int :: "int \<Rightarrow> string" where
  "str_int i = (if i < 0 then CHR ''-'' # str_nat (nat (- i)) else str_nat (nat i))"

text \<open>
  A field as \<^verbatim>\<open>csv.writer\<close> writes it with its default dialect: a string that holds the
  delimiter, the quote character or a line break is put in quotes, with its quotes
  doubled.
\<close>

definition needs_quotes :: "string \<Rightarrow> bool" where
  "needs_quotes s = (\<exists>c \<in> set s. c = CHR '','' \<or> c = CHR 0x22 \<or> c = CHR 0x0A \<or> c = CHR 0x0D)"

definition csv_field :: "cell \<Rightarrow> string" where
  "csv_field c =
     (case c of
        Number i \<Rightarrow> str_int i
      | Text s \<Rightarrow>
          if needs_quotes s then
            [CHR 0x22] @ concat (map (\<lambda>ch. if ch = CHR 0x22 then [ch, ch] else [ch]) s) @ [CHR 0x22]
          else s)"

fun join_commas :: "string list \<Rightarrow> string" where
  "join_commas [] = []"
| "join_commas [f] = f"
| "join_commas (f # g # fs) = f @ '','' @ join_commas (g # fs)"

definition csv_line :: "cell list \<Rightarrow> string" where
  "csv_line row = join_commas (map csv_field row)"

subsection \<open>The table read back and the plot\<close>

text \<open>
  What \<^verbatim>\<open>pd.read_csv\<close> makes of the file: the header line names the columns, every
  further line is a record.  \<^verbatim>\<open>df.empty\<close> holds when there is no record or no column.
\<close>

record frame =
  header_line :: string
  record_lines :: "string list"

definition read_csv :: "filesystem \<Rightarrow> string \<Rightarrow> pyerror + frame" where
  "read_csv fs p =
     (case files fs p of
        None \<Rightarrow> Inl (ValueError ''No such file'')
      | Some [] \<Rightarrow> Inl (ValueError ''No columns to parse from file'')
      | Some (h # ls) \<Rightarrow> Inr \<lparr>header_line = h, record_lines = ls\<rparr>)"

definition frame_empty :: "frame \<Rightarrow> bool" where
  "frame_empty df = (record_lines df = [] \<or> header_line df = [])"

text \<open>The line chart: its title, its axis labels, and the records it draws.\<close>

record axes =
  title :: string
  xlabel :: string
  ylabel :: string
  plotted :: "string list"

subsection \<open>The function\<close>

text \<open>
  \<^verbatim>\<open>random.randint(a, b)\<close>: an integer from \<open>a\<close> to \<open>b\<close>, both included, from a raw
  draw of the generator.
\<close>

definition random_randint :: "nat \<Rightarrow> int \<Rightarrow> int \<Rightarrow> int" where
  "random_randint raw a b = a + int raw mod (b - a + 1)"

text \<open>
  Lines 45 to 47: the loop over \<^verbatim>\<open>range(hours)\<close>, with the list \<open>data\<close> it appends to.
  \<open>clock i\<close> is what \<^verbatim>\<open>datetime.now().strftime(...)\<close> returns in iteration \<open>i\<close>, and
  \<open>draws k\<close> is the raw output of the \<open>k\<close>-th call of the generator; iteration \<open>i\<close> makes
  the calls \<open>4 * i\<close> to \<open>4 * i + 3\<close>.
\<close>

fun f_410_rows ::
  "(nat \<Rightarrow> string) \<Rightarrow> (nat \<Rightarrow> nat) \<Rightarrow> nat list \<Rightarrow> cell list list \<Rightarrow> cell list list" where
  "f_410_rows clock draws [] data = data"
| "f_410_rows clock draws (i # later) data =
     (let row = [Text (clock i)]
                @ map (\<lambda>j. Number (random_randint (draws (length VEHICLE_TYPES * i + j)) 0 50))
                      [0..<length VEHICLE_TYPES]
      in f_410_rows clock draws later (data @ [row]))"

text \<open>Lines 41 to 59.  The result is the file system after the call and the returned pair.\<close>

definition f_410 ::
  "opsys \<Rightarrow> (nat \<Rightarrow> string) \<Rightarrow> (nat \<Rightarrow> nat) \<Rightarrow> filesystem \<Rightarrow> int \<Rightarrow> string
     \<Rightarrow> pyerror + (filesystem \<times> string \<times> axes option)" where
  "f_410 os clock draws fs hours output_dir =
     (case (if \<not> path_exists fs output_dir then makedirs os fs output_dir else Inr fs) of
        Inl e \<Rightarrow> Inl e
      | Inr fs1 \<Rightarrow>
          let FILE_PATH = path_join output_dir ''traffic_data.csv'';
              data = f_410_rows clock draws [0..<nat hours] [[Text ''Time''] @ map Text VEHICLE_TYPES]
          in case write_lines os fs1 FILE_PATH (map csv_line data) of
               Inl e \<Rightarrow> Inl e
             | Inr fs2 \<Rightarrow>
                 (case read_csv fs2 FILE_PATH of
                    Inl e \<Rightarrow> Inl e
                  | Inr df \<Rightarrow>
                      if frame_empty df then Inr (fs2, FILE_PATH, None)
                      else Inr (fs2, FILE_PATH,
                                Some \<lparr>title = ''Traffic Data Over Time'', xlabel = ''Time'',
                                      ylabel = ''Vehicle Count'', plotted = record_lines df\<rparr>)))"

text \<open>
  To run the model on: an empty file system, a file system whose path \<^verbatim>\<open>out\<close> is a
  regular file, an operating system that refuses nothing, a clock and a generator output.
\<close>

definition empty_fs :: filesystem where
  "empty_fs = \<lparr>dirs = {}, files = (\<lambda>p. None)\<rparr>"

definition regular_file_fs :: filesystem where
  "regular_file_fs = \<lparr>dirs = {}, files = (\<lambda>p. if p = ''out'' then Some [''text''] else None)\<rparr>"

definition willing :: opsys where
  "willing = \<lparr>mkdir_refused = (\<lambda>p. None), open_refused = (\<lambda>p. None)\<rparr>"

definition example_clock :: "nat \<Rightarrow> string" where
  "example_clock i = ''2021-01-01 00:00:0'' @ str_nat (i mod 10) @ ''.000000''"
section \<open>Performance series per team (\<open>task_func\<close>)\<close>

subsection \<open>Arguments and environment\<close>

text \<open>
  The argument \<open>teams\<close> is any Python object; the function checks that it is a list of
  strings.
\<close>

datatype pyobj = PyNone | PyInt int | PyStr string | PyList "pyobj list"

fun isinstance_str :: "pyobj \<Rightarrow> bool" where
  "isinstance_str (PyStr s) = True"
| "isinstance_str x = False"

fun str_value :: "pyobj \<Rightarrow> string" where
  "str_value (PyStr s) = s"
| "str_value x = []"

text \<open>
  Line 40: \<^verbatim>\<open>isinstance(teams, list)\<close> and \<^verbatim>\<open>all(isinstance(t, str) for t in teams)\<close>.
\<close>

fun is_list_of_str :: "pyobj \<Rightarrow> bool" where
  "is_list_of_str (PyList ts) = list_all isinstance_str ts"
| "is_list_of_str x = False"

fun list_items :: "pyobj \<Rightarrow> pyobj list" where
  "list_items (PyList ts) = ts"
| "list_items x = []"

text \<open>
  A naive local \<^verbatim>\<open>datetime\<close> is held as its count of microseconds on the local
  calendar, the quantity that \<^verbatim>\<open>current_time - start_time\<close> subtracts.

  What the function takes from outside: the conversion
  \<^verbatim>\<open>datetime.fromtimestamp(epoch_milliseconds / 1000.0)\<close>, which raises for a timestamp the
  type cannot hold; the reading of \<^verbatim>\<open>datetime.now()\<close>; \<^verbatim>\<open>strftime\<close>; and the
  pseudo-random generator of the \<^verbatim>\<open>random\<close> module, given by the state that
  \<^verbatim>\<open>random.seed(s)\<close> sets and by the step that yields 53 random bits and the next state.
\<close>

record 'g environment =
  fromtimestamp :: "int \<Rightarrow> pyerror + int"
  now :: int
  strftime :: "int \<Rightarrow> string"
  seed :: "int \<Rightarrow> 'g"
  genrand :: "'g \<Rightarrow> nat \<times> 'g"

text \<open>The microseconds of a day; \<^verbatim>\<open>timedelta.days\<close> is the floor of the quotient.\<close>

definition DAY :: int where
  "DAY = 86400000000"

definition timedelta_days :: "int \<Rightarrow> int" where
  "timedelta_days delta = delta div DAY"

text \<open>
  \<^verbatim>\<open>random.random()\<close> is 53 random bits divided by \<open>2 ^ 53\<close>, and
  \<^verbatim>\<open>random.uniform(a, b)\<close> is \<^verbatim>\<open>a + (b - a) * random()\<close>.  The arithmetic is that of
  the real numbers: the rounding of floats is not modelled.
\<close>

definition random_random :: "('g \<Rightarrow> nat \<times> 'g) \<Rightarrow> 'g \<Rightarrow> real \<times> 'g" where
  "random_random gen g = (real (fst (gen g) mod 2 ^ 53) / 2 ^ 53, snd (gen g))"

definition random_uniform :: "('g \<Rightarrow> nat \<times> 'g) \<Rightarrow> real \<Rightarrow> real \<Rightarrow> 'g \<Rightarrow> real \<times> 'g" where
  "random_uniform gen a b g =
     (a + (b - a) * fst (random_random gen g), snd (random_random gen g))"

subsection \<open>The performance data\<close>

text \<open>
  Line 47: the dictionary comprehension, one insertion per element of \<open>teams\<close>, each
  with a list of \<open>days_diff\<close> zeros of its own.
\<close>

fun init_data :: "string list \<Rightarrow> nat \<Rightarrow> (string \<times> real list) list \<Rightarrow> (string \<times> real list) list" where
  "init_data [] days_diff d = d"
| "init_data (team # rest) days_diff d =
     init_data rest days_diff (dict_set d team (replicate days_diff 0))"

text \<open>
  Line 51: \<^verbatim>\<open>performance_data[team][i] += performance\<close>.  Every team is a key and
  \<open>i\<close> is below the length of every list, so the lookups cannot fail.
\<close>

definition add_at :: "(string \<times> real list) list \<Rightarrow> string \<Rightarrow> nat \<Rightarrow> real \<Rightarrow> (string \<times> real list) list" where
  "add_at d team i performance =
     map (\<lambda>(k, xs). if k = team then (k, xs[i := xs ! i + performance]) else (k, xs)) d"

text \<open>
  Lines 49 to 51, the loop over the teams on day \<open>i\<close>, and lines 48 to 51, the loop over
  the days.  Both carry the state of the generator and the dictionary.
\<close>

fun teams_loop ::
  "('g \<Rightarrow> nat \<times> 'g) \<Rightarrow> nat \<Rightarrow> string list \<Rightarrow> 'g \<times> (string \<times> real list) list
     \<Rightarrow> 'g \<times> (string \<times> real list) list" where
  "teams_loop gen i [] (g, d) = (g, d)"
| "teams_loop gen i (team # rest) (g, d) =
     (let (performance, g') = random_uniform gen (1 / 10) 1 g
      in teams_loop gen i rest (g', add_at d team i performance))"

fun days_loop ::
  "('g \<Rightarrow> nat \<times> 'g) \<Rightarrow> string list \<Rightarrow> nat list \<Rightarrow> 'g \<times> (string \<times> real list) list
     \<Rightarrow> 'g \<times> (string \<times> real list) list" where
  "days_loop gen teams [] (g, d) = (g, d)"
| "days_loop gen teams (i # later) (g, d) =
     days_loop gen teams later (teams_loop gen i teams (g, d))"

text \<open>The figure: one line per entry of the dictionary, and the axis labels.\<close>

record figure =
  plot_lines :: "(string \<times> nat list \<times> real list) list"
  x_label :: string
  y_label :: string

subsection \<open>The function\<close>

text \<open>
  Lines 39 to 58.  The result is the state in which the call leaves the generator of the
  \<^verbatim>\<open>random\<close> module, and the exception raised or the pair returned.  \<open>g0\<close> is the
  state of the generator before the call.
\<close>

definition task_func ::
  "'g environment \<Rightarrow> 'g \<Rightarrow> int \<Rightarrow> pyobj \<Rightarrow> int
     \<Rightarrow> 'g \<times> (pyerror + ((string \<times> real list) list \<times> figure))" where
  "task_func env g0 epoch_milliseconds teams random_seed =
     (let g = seed env random_seed in
      if \<not> is_list_of_str teams then (g, Inl (TypeError ''Expected teams to be list of str''))
      else
        case fromtimestamp env epoch_milliseconds of
          Inl e \<Rightarrow> (g, Inl e)
        | Inr start_time \<Rightarrow>
            let current_time = now env;
                days_diff = timedelta_days (current_time - start_time)
            in if days_diff < 0 then
                 (g, Inl (ValueError ''Input epoch timestamp is in the future!''))
               else
                 let names = map str_value (list_items teams);
                     performance_data = init_data names (nat days_diff) [];
                     (g', performance_data) =
                        days_loop (genrand env) names [0..<nat days_diff] (g, performance_data);
                     fig = \<lparr>plot_lines = map (\<lambda>(team, performance).
                                               (team, [0..<nat days_diff], performance))
                                             performance_data,
                            x_label = ''Days since '' @ strftime env start_time,
                            y_label = ''Performance''\<rparr>
                 in (g', Inr (performance_data, fig)))"

text \<open>
  The values drawn: the state of the generator after \<open>n\<close> calls of
  \<^verbatim>\<open>random.uniform(0.1, 1)\<close>, and the value of the call after those.
\<close>

fun state_after :: "('g \<Rightarrow> nat \<times> 'g) \<Rightarrow> 'g \<Rightarrow> nat \<Rightarrow> 'g" where
  "state_after gen g 0 = g"
| "state_after gen g (Suc n) = state_after gen (snd (random_uniform gen (1 / 10) 1 g)) n"

definition nth_draw :: "('g \<Rightarrow> nat \<times> 'g) \<Rightarrow> 'g \<Rightarrow> nat \<Rightarrow> real" where
  "nth_draw gen g n = fst (random_uniform gen (1 / 10) 1 (state_after gen g n))"

text \<open>
  An environment to run the model on.  Local time is UTC.  A timestamp whose seconds do
  not fit 64 bits, or whose year is outside 1 to 9999, does not convert.  The current time
  is 2023-11-14 22:13:20 UTC.  The state of the generator is a counter, and the \<open>k\<close>-th
  step after the seed \<open>s\<close> yields the bits of \<open>2 ^ 52 + 1000 * |s| + k\<close>.
\<close>

definition example_fromtimestamp :: "int \<Rightarrow> pyerror + int" where
  "example_fromtimestamp ms =
     (if ms < - (2 ^ 63) * 1000 \<or> 2 ^ 63 * 1000 \<le> ms then
        Inl (OverflowError ''timestamp out of range for platform time_t'')
      else if ms < - 62135596800000 \<or> 253402300800000 \<le> ms then
        Inl (ValueError ''year is out of range'')
      else Inr (ms * 1000))"

definition example_env :: "nat environment" where
  "example_env =
     \<lparr>fromtimestamp = example_fromtimestamp,
      now = 1700000000000000,
      strftime = (\<lambda>t. str_int t),
      seed = (\<lambda>s. 1000 * nat \<bar>s\<bar>),
      genrand = (\<lambda>g. (2 ^ 52 + g, Suc g))\<rparr>"

text \<open>
  With \<open>k\<close> team names, the values drawn for team \<open>j\<close>: on day \<open>i\<close> the value of the
  call number \<open>i * k + j\<close> of \<^verbatim>\<open>random.uniform(0.1, 1)\<close> after seeding.
\<close>

definition series :: "('g \<Rightarrow> nat \<times> 'g) \<Rightarrow> 'g \<Rightarrow> nat \<Rightarrow> nat \<Rightarrow> nat \<Rightarrow> real list" where
  "series gen g k days j = map (\<lambda>i. nth_draw gen g (i * k + j)) [0..<days]"

text \<open>
  Auxiliary functions for the proofs.  \<open>draw_list gen g n\<close> is the list of the first
  \<open>n\<close> values drawn from state \<open>g\<close>; \<open>credit k teams vs\<close> is the sum of the values of
  \<open>vs\<close> that the loop over \<open>teams\<close> adds to the list of key \<open>k\<close>; \<open>day_updates\<close> is
  what the loop over the days does to the list of one key.
\<close>

definition draw_list :: "('g \<Rightarrow> nat \<times> 'g) \<Rightarrow> 'g \<Rightarrow> nat \<Rightarrow> real list" where
  "draw_list gen g n = map (nth_draw gen g) [0..<n]"

definition credit :: "string \<Rightarrow> string list \<Rightarrow> real list \<Rightarrow> real" where
  "credit k teams vs = sum_list (map snd (filter (\<lambda>p. fst p = k) (zip teams vs)))"

fun day_updates ::
  "('g \<Rightarrow> nat \<times> 'g) \<Rightarrow> string list \<Rightarrow> string \<Rightarrow> 'g \<Rightarrow> nat list \<Rightarrow> real list \<Rightarrow> real list" where
  "day_updates gen teams k g [] xs = xs"
| "day_updates gen teams k g (i # later) xs =
     day_updates gen teams k (state_after gen g (length teams)) later
       (xs[i := xs ! i + credit k teams (draw_list gen g (length teams))])"

section \<open>Z-score normalisation of a matrix (\<open>f_235\<close>)\<close>

subsection \<open>Floating-point numbers\<close>









subsection \<open>The z-score of an array\<close>




subsection \<open>Tables\<close>







subsection \<open>The function\<close>


subsection \<open>What the specification speaks of\<close>









section \<open>Properties of \<open>f_843\<close>\<close>

lemma POSSIBLE_NUMBERS_eq: "POSSIBLE_NUMBERS = map int [1..<11]"
  unfolding POSSIBLE_NUMBERS_def by code_simp

lemma take_POSSIBLE_NUMBERS:
  "take n POSSIBLE_NUMBERS = map int [1..<Suc (min n 10)]"
proof -
  have "take n (map int [1..<11]) = map int (take n [1..<11])"
    by (simp add: take_map)
  also have "take n [1..<11] = [1..<Suc (min n 10)]"
    by (cases "n \<le> 10") (simp_all add: take_upt min_def)
  finally show ?thesis by (simp add: POSSIBLE_NUMBERS_eq)
qed

lemma sum_squares_take:
  "sum_list (map (\<lambda>x. math_pow x 2) (take n POSSIBLE_NUMBERS))
     = (\<Sum>k = 1..min n 10. (real k)\<^sup>2)"
proof -
  have "sum_list (map (\<lambda>x. math_pow x 2) (take n POSSIBLE_NUMBERS))
          = sum_list (map (\<lambda>k. (real k)\<^sup>2) [1..<Suc (min n 10)])"
    by (simp add: take_POSSIBLE_NUMBERS math_pow_def comp_def)
  also have "\<dots> = (\<Sum>k\<in>set [1..<Suc (min n 10)]. (real k)\<^sup>2)"
    by (rule sum_list_distinct_conv_sum_set) simp
  also have "set [1..<Suc (min n 10)] = {1..min n 10}"
    by auto
  finally show ?thesis .
qed

lemma f_843_loop_eq:
  "f_843_loop ls acc = acc @ map (\<lambda>l. \<Sum>k = 1..min (length l) 10. (real k)\<^sup>2) ls"
  by (induction ls arbitrary: acc) (simp_all add: sum_squares_take)

lemma f_843_eq:
  "f_843 ls = map (\<lambda>l. \<Sum>k = 1..min (length l) 10. (real k)\<^sup>2) ls"
  by (simp add: f_843_def f_843_loop_eq)

lemma sum_squares_10: "(\<Sum>k = 1..10. (real k)\<^sup>2) = 385"
proof -
  have "{1..10::nat} = set [1..<11]" by auto
  then have "(\<Sum>k = 1..10. (real k)\<^sup>2) = sum_list (map (\<lambda>k. (real k)\<^sup>2) [1..<11])"
    by (simp add: sum_list_distinct_conv_sum_set)
  also have "\<dots> = 385" by (simp add: upt_conv_Cons)
  finally show ?thesis .
qed

text \<open>
  C9.  \<open>f_843\<close> returns one sum per sublist, in input order; the sum for a sublist of
  length \<open>N\<close> is the sum of the squares of the first \<open>N\<close> values of the constant
  sequence 1..10, which is 0 for an empty sublist; a sublist longer than the sequence is
  cut to the sequence's ten values (sum 385) and nothing is raised; and
  \<^verbatim>\<open>f_843([[1,2,3],[4,5]])\<close> is \<^verbatim>\<open>[14.0, 5.0]\<close>.
\<close>

theorem f_843_sum_of_squares:
  "f_843 list_of_lists
     = map (\<lambda>l. \<Sum>k = 1..min (length l) 10. (real k)\<^sup>2) list_of_lists
   \<and> length (f_843 list_of_lists) = length list_of_lists
   \<and> f_843 [[]] = [0]
   \<and> f_843 [l] = f_843 [take 10 l]
   \<and> (10 \<le> length l \<longrightarrow> f_843 [l] = [385])
   \<and> f_843 [[1, 2, 3], [4, 5 :: int]] = [14, 5]"
proof -
  have ex: "f_843 [[1, 2, 3], [4, 5 :: int]] = [14, 5]"
    by (simp add: f_843_eq min_def numeral_eq_Suc)
  have long: "10 \<le> length l \<longrightarrow> f_843 [l] = [385]"
    using sum_squares_10 by (simp add: f_843_eq min_def)
  have cut: "f_843 [l] = f_843 [take 10 l]"
    by (simp add: f_843_eq min.commute)
  show ?thesis
    using ex long cut by (simp add: f_843_eq)
qed

theorem f_843_sum_of_squares_witness:
  "f_843 [[7, 7, 7 :: int], replicate 12 0] = [14, 385]
   \<and> (10::nat) \<le> length (replicate 12 (0::int))
   \<and> f_843 [replicate 12 (0::int)] = [385]"
proof -
  have h: "(10::nat) \<le> length (replicate 12 (0::int))" by simp
  have a: "f_843 [replicate 12 (0::int)] = [385]"
    using f_843_sum_of_squares [of "[]::int list list" "replicate 12 (0::int)"] h by blast
  have b: "f_843 [[7, 7, 7 :: int], replicate 12 0]
             = map (\<lambda>l. \<Sum>k = 1..min (length l) 10. (real k)\<^sup>2)
                 [[7, 7, 7 :: int], replicate 12 0]"
    using f_843_sum_of_squares [of "[[7, 7, 7 :: int], replicate 12 0]" "[]"] by blast
  have c: "(\<Sum>k = 1..(3::nat). (real k)\<^sup>2) = 14"
    by (simp add: numeral_eq_Suc)
  show ?thesis using a b c h sum_squares_10 by simp
qed

section \<open>Properties of \<open>f_32\<close>\<close>

lemma weekday_nonneg: "0 \<le> weekday dt"
  by (simp add: weekday_def weekday_of_ordinal_def)

lemma f_32_loop_step:
  assumes "0 \<le> ordinal d" and "ordinal d < MAXORDINAL"
  shows "f_32_loop d =
           (if is_business_day (ordinal d + 1) then Inr (d\<lparr>ordinal := ordinal d + 1\<rparr>)
            else f_32_loop (d\<lparr>ordinal := ordinal d + 1\<rparr>))"
  using assms
  by (subst f_32_loop.simps)
     (simp add: add_days_def weekday_def is_business_day_def Let_def)

lemma f_32_loop_upto_step:
  assumes "0 \<le> ordinal d" and "ordinal d < MAXORDINAL"
  shows "f_32_loop_upto (Suc n) d =
           (if is_business_day (ordinal d + 1) then Some (Inr (d\<lparr>ordinal := ordinal d + 1\<rparr>))
            else f_32_loop_upto n (d\<lparr>ordinal := ordinal d + 1\<rparr>))"
  using assms
  by (simp add: f_32_loop_upto.simps add_days_def weekday_def is_business_day_def Let_def)

lemma f_32_loop_overflow:
  assumes "MAXORDINAL \<le> ordinal d"
  shows "f_32_loop d = Inl (OverflowError ''date value out of range'')"
  using assms
  by (subst f_32_loop.simps) (simp add: add_days_def Let_def)

lemma days_to_next_range: "1 \<le> days_to_next n \<and> days_to_next n \<le> 3"
  by (simp add: days_to_next_def)

lemma weekday_of_ordinal_cases:
  obtains "weekday_of_ordinal n = 0" | "weekday_of_ordinal n = 1" | "weekday_of_ordinal n = 2"
    | "weekday_of_ordinal n = 3" | "weekday_of_ordinal n = 4" | "weekday_of_ordinal n = 5"
    | "weekday_of_ordinal n = 6"
proof -
  have "0 \<le> (n + 6) mod 7" and "(n + 6) mod 7 < 7" by simp_all
  then show ?thesis
    using that unfolding weekday_of_ordinal_def by arith
qed

lemma weekday_of_ordinal_add:
  "weekday_of_ordinal (n + k) = (weekday_of_ordinal n + k) mod 7"
  unfolding weekday_of_ordinal_def
  by (metis add.assoc add.commute mod_add_right_eq)

lemma days_to_next_business: "is_business_day (n + days_to_next n)"
  by (rule weekday_of_ordinal_cases [of n])
     (simp_all add: is_business_day_def days_to_next_def weekday_of_ordinal_add)

lemma days_to_next_first:
  assumes "n < j" and "j < n + days_to_next n"
  shows "\<not> is_business_day j"
proof -
  have "j = n + 1 \<or> j = n + 2"
    using assms days_to_next_range [of n] by arith
  moreover have "j = n + 2 \<Longrightarrow> weekday_of_ordinal n = 4"
    using assms by (auto simp: days_to_next_def split: if_splits)
  moreover have "weekday_of_ordinal n = 4 \<or> weekday_of_ordinal n = 5"
    using assms by (auto simp: days_to_next_def split: if_splits)
  ultimately show ?thesis
    by (auto simp: is_business_day_def weekday_of_ordinal_add)
qed

lemma MAXORDINAL_weekday: "weekday_of_ordinal MAXORDINAL = 4"
  by (simp add: weekday_of_ordinal_def MAXORDINAL_def)

lemma days_to_next_below_max:
  assumes "n < MAXORDINAL"
  shows "n + days_to_next n \<le> MAXORDINAL"
proof (rule ccontr)
  assume "\<not> n + days_to_next n \<le> MAXORDINAL"
  then have "n < MAXORDINAL \<and> MAXORDINAL < n + days_to_next n"
    using assms by simp
  then have "\<not> is_business_day MAXORDINAL"
    using days_to_next_first [of n MAXORDINAL] by simp
  then show False
    by (simp add: is_business_day_def MAXORDINAL_weekday)
qed

lemma f_32_loop_stop:
  assumes "0 \<le> ordinal d" and "ordinal d < MAXORDINAL" and "is_business_day (ordinal d + 1)"
  shows "f_32_loop d = Inr (d\<lparr>ordinal := ordinal d + 1\<rparr>)
         \<and> f_32_loop_upto (Suc k) d = Some (Inr (d\<lparr>ordinal := ordinal d + 1\<rparr>))"
  using assms by (simp add: f_32_loop_step f_32_loop_upto_step)

lemma f_32_loop_skip:
  assumes "0 \<le> ordinal d" and "ordinal d < MAXORDINAL" and "\<not> is_business_day (ordinal d + 1)"
  shows "f_32_loop d = f_32_loop (d\<lparr>ordinal := ordinal d + 1\<rparr>)
         \<and> f_32_loop_upto (Suc k) d = f_32_loop_upto k (d\<lparr>ordinal := ordinal d + 1\<rparr>)"
  using assms by (simp add: f_32_loop_step f_32_loop_upto_step)

lemma f_32_loop_result:
  assumes lo: "0 \<le> ordinal d" and hi: "ordinal d < MAXORDINAL"
  shows "f_32_loop d = Inr (d\<lparr>ordinal := ordinal d + days_to_next (ordinal d)\<rparr>)
         \<and> f_32_loop_upto 3 d = Some (f_32_loop d)"
proof -
  define n where "n = ordinal d"
  define d1 where "d1 = d\<lparr>ordinal := n + 1\<rparr>"
  define d2 where "d2 = d\<lparr>ordinal := n + 2\<rparr>"
  define d3 where "d3 = d\<lparr>ordinal := n + 3\<rparr>"
  have o1: "ordinal d1 = n + 1" and o2: "ordinal d2 = n + 2"
    by (simp_all add: d1_def d2_def)
  have n1: "d\<lparr>ordinal := ordinal d + 1\<rparr> = d1"
    and n2: "d1\<lparr>ordinal := ordinal d1 + 1\<rparr> = d2"
    and n3: "d2\<lparr>ordinal := ordinal d2 + 1\<rparr> = d3"
    by (simp_all add: d1_def d2_def d3_def n_def)
  have three: "(3::nat) = Suc (Suc (Suc 0))" by simp
  have bound: "n + days_to_next n \<le> MAXORDINAL"
    using hi unfolding n_def by (rule days_to_next_below_max)
  have lo': "0 \<le> n" and hi': "n < MAXORDINAL" using lo hi by (simp_all add: n_def)
  consider (one) "days_to_next n = 1" | (two) "days_to_next n = 2" | (three) "days_to_next n = 3"
    using days_to_next_range [of n] by arith
  then have "f_32_loop d = Inr (d\<lparr>ordinal := n + days_to_next n\<rparr>)
         \<and> f_32_loop_upto 3 d = Some (f_32_loop d)"
  proof cases
    case one
    then have b1: "is_business_day (ordinal d + 1)"
      using days_to_next_business [of n] by (simp add: n_def)
    show ?thesis
      using f_32_loop_stop [OF lo hi b1, of "Suc (Suc 0)"] one
      by (simp add: three n1 d1_def)
  next
    case two
    have b1: "\<not> is_business_day (ordinal d + 1)"
      using two days_to_next_first [of n "n + 1"] by (simp add: n_def)
    have b2: "is_business_day (ordinal d1 + 1)"
      using two days_to_next_business [of n] by (simp add: o1 add.commute)
    have lo1: "0 \<le> ordinal d1" and hi1: "ordinal d1 < MAXORDINAL"
      using bound two lo' by (simp_all add: o1)
    show ?thesis
      using f_32_loop_skip [OF lo hi b1, of "Suc (Suc 0)"] f_32_loop_stop [OF lo1 hi1 b2, of "Suc 0"] two
      by (simp add: three n1 n2 d2_def)
  next
    case three
    have b1: "\<not> is_business_day (ordinal d + 1)"
      using three days_to_next_first [of n "n + 1"] by (simp add: n_def)
    have b2: "\<not> is_business_day (ordinal d1 + 1)"
      using three days_to_next_first [of n "n + 2"] by (simp add: o1 add.commute)
    have b3: "is_business_day (ordinal d2 + 1)"
      using three days_to_next_business [of n] by (simp add: o2 add.commute)
    have lo1: "0 \<le> ordinal d1" and hi1: "ordinal d1 < MAXORDINAL"
      and lo2: "0 \<le> ordinal d2" and hi2: "ordinal d2 < MAXORDINAL"
      using bound three lo' by (simp_all add: o1 o2)
    show ?thesis
      using f_32_loop_skip [OF lo hi b1, of "Suc (Suc 0)"] f_32_loop_skip [OF lo1 hi1 b2, of "Suc 0"]
        f_32_loop_stop [OF lo2 hi2 b3, of 0] three
      by (simp add: \<open>(3::nat) = Suc (Suc (Suc 0))\<close> n1 n2 n3 d3_def)
  qed
  then show ?thesis by (simp add: n_def)
qed

lemma f_32_loop_upto_sound:
  "f_32_loop_upto n d = Some r \<Longrightarrow> f_32_loop d = r"
proof (induction n arbitrary: d)
  case 0
  then show ?case by (simp add: f_32_loop_upto.simps)
next
  case (Suc n)
  note prems = Suc.prems [unfolded f_32_loop_upto.simps]
  show ?case
  proof (cases "add_days d 1")
    case (Inl e)
    then have "r = Inl e" using prems by simp
    then show ?thesis using Inl by (subst f_32_loop.simps) simp
  next
    case (Inr d')
    show ?thesis
    proof (cases "0 \<le> weekday d' \<and> weekday d' < 5")
      case True
      then have "r = Inr d'" using prems Inr by simp
      then show ?thesis using Inr True by (subst f_32_loop.simps) simp
    next
      case False
      then have "f_32_loop_upto n d' = Some r" using prems Inr by auto
      then have "f_32_loop d' = r" by (rule Suc.IH)
      then show ?thesis using Inr False by (subst f_32_loop.simps) auto
    qed
  qed
qed


lemma valid_midnight:
  assumes "1 \<le> ymd2ord y m d" and "ymd2ord y m d \<le> 3652059"
  shows "valid_datetime (midnight y m d)"
  using assms by (simp add: valid_datetime_def midnight_def MAXORDINAL_def)

lemma f_32_parsed:
  assumes "parse date_str = Inr given_date"
  shows "f_32 parse date_str = f_32_loop given_date"
  using assms by (simp add: f_32_def)

lemma f_32_example_saturday:
  "f_32 parse_ymd ''2022-10-22'' = Inr (midnight 2022 10 24)"
  by code_simp

lemma f_32_example_friday:
  "f_32 parse_ymd ''2022-10-28'' = Inr (midnight 2022 10 31)"
  by code_simp

lemma example_weekdays:
  "weekday (midnight 2022 10 22) = 5 \<and> weekday (midnight 2022 10 24) = 0
   \<and> weekday (midnight 2022 10 28) = 4 \<and> weekday (midnight 2022 10 31) = 0"
  by code_simp

text \<open>
  C8 (amended).  For every date string that parses to a date before 9999-12-31, \<open>f_32\<close>
  returns a datetime with the time of day of the input, on the first day strictly after
  the input day whose weekday is Monday to Friday: no day in between is a business day.
  \<^verbatim>\<open>f_32('2022-10-22')\<close>, a Saturday, is Monday 2022-10-24, and
  \<^verbatim>\<open>f_32('2022-10-28')\<close>, a Friday, is Monday 2022-10-31.
\<close>

theorem f_32_next_business_day:
  "(parse date_str = Inr given_date \<and> valid_datetime given_date
      \<and> ordinal given_date < MAXORDINAL
    \<longrightarrow> (\<exists>r. f_32 parse date_str = Inr r
           \<and> r = given_date\<lparr>ordinal := ordinal r\<rparr>
           \<and> ordinal given_date < ordinal r
           \<and> is_business_day (ordinal r)
           \<and> (\<forall>j. ordinal given_date < j \<and> j < ordinal r \<longrightarrow> \<not> is_business_day j)))
   \<and> f_32 parse_ymd ''2022-10-22'' = Inr (midnight 2022 10 24)
   \<and> weekday (midnight 2022 10 22) = 5 \<and> weekday (midnight 2022 10 24) = 0
   \<and> f_32 parse_ymd ''2022-10-28'' = Inr (midnight 2022 10 31)
   \<and> weekday (midnight 2022 10 28) = 4 \<and> weekday (midnight 2022 10 31) = 0"
proof -
  have general: "\<exists>r. f_32 parse date_str = Inr r
           \<and> r = given_date\<lparr>ordinal := ordinal r\<rparr>
           \<and> ordinal given_date < ordinal r
           \<and> is_business_day (ordinal r)
           \<and> (\<forall>j. ordinal given_date < j \<and> j < ordinal r \<longrightarrow> \<not> is_business_day j)"
    if p: "parse date_str = Inr given_date" and v: "valid_datetime given_date"
      and hi: "ordinal given_date < MAXORDINAL"
  proof -
    let ?n = "ordinal given_date"
    let ?r = "given_date\<lparr>ordinal := ?n + days_to_next ?n\<rparr>"
    have lo: "0 \<le> ?n" using v by (simp add: valid_datetime_def)
    have "f_32 parse date_str = Inr ?r"
      using f_32_loop_result [OF lo hi] by (simp add: f_32_parsed [of parse date_str given_date, OF p])
    moreover have "?r = given_date\<lparr>ordinal := ordinal ?r\<rparr>" by simp
    moreover have "?n < ordinal ?r" using days_to_next_range [of ?n] by simp
    moreover have "is_business_day (ordinal ?r)" by (simp add: days_to_next_business)
    moreover have "\<forall>j. ?n < j \<and> j < ordinal ?r \<longrightarrow> \<not> is_business_day j"
      using days_to_next_first [of ?n] by simp
    ultimately show ?thesis by blast
  qed
  have "parse date_str = Inr given_date \<and> valid_datetime given_date
      \<and> ordinal given_date < MAXORDINAL
    \<longrightarrow> (\<exists>r. f_32 parse date_str = Inr r
           \<and> r = given_date\<lparr>ordinal := ordinal r\<rparr>
           \<and> ordinal given_date < ordinal r
           \<and> is_business_day (ordinal r)
           \<and> (\<forall>j. ordinal given_date < j \<and> j < ordinal r \<longrightarrow> \<not> is_business_day j))"
    using general by (intro impI) (elim conjE)
  then show ?thesis
    using f_32_example_saturday f_32_example_friday example_weekdays by simp
qed

theorem f_32_next_business_day_witness:
  "parse_ymd ''2022-11-02'' = Inr (midnight 2022 11 2)
   \<and> valid_datetime (midnight 2022 11 2)
   \<and> ordinal (midnight 2022 11 2) < MAXORDINAL
   \<and> (\<exists>r. f_32 parse_ymd ''2022-11-02'' = Inr r
          \<and> r = (midnight 2022 11 2)\<lparr>ordinal := ordinal r\<rparr>
          \<and> ordinal (midnight 2022 11 2) < ordinal r
          \<and> is_business_day (ordinal r))
   \<and> f_32 parse_ymd ''2022-11-02'' = Inr (midnight 2022 11 3)"
proof -
  have p: "parse_ymd ''2022-11-02'' = Inr (midnight 2022 11 2)" by code_simp
  have "ymd2ord 2022 11 2 = 738461" by code_simp
  then have v: "valid_datetime (midnight 2022 11 2)" by (simp add: valid_midnight)
  have hi: "ordinal (midnight 2022 11 2) < MAXORDINAL" by code_simp
  have e: "f_32 parse_ymd ''2022-11-02'' = Inr (midnight 2022 11 3)" by code_simp
  have "parse_ymd ''2022-11-02'' = Inr (midnight 2022 11 2)
          \<and> valid_datetime (midnight 2022 11 2)
          \<and> ordinal (midnight 2022 11 2) < MAXORDINAL
        \<longrightarrow> (\<exists>r. f_32 parse_ymd ''2022-11-02'' = Inr r
           \<and> r = (midnight 2022 11 2)\<lparr>ordinal := ordinal r\<rparr>
           \<and> ordinal (midnight 2022 11 2) < ordinal r
           \<and> is_business_day (ordinal r)
           \<and> (\<forall>j. ordinal (midnight 2022 11 2) < j \<and> j < ordinal r
                  \<longrightarrow> \<not> is_business_day j))"
    using f_32_next_business_day [of parse_ymd "''2022-11-02''" "midnight 2022 11 2"]
    by (rule conjunct1)
  then obtain r where "f_32 parse_ymd ''2022-11-02'' = Inr r"
      and "r = (midnight 2022 11 2)\<lparr>ordinal := ordinal r\<rparr>"
      and "ordinal (midnight 2022 11 2) < ordinal r"
      and "is_business_day (ordinal r)"
    using p v hi by (elim impE exE conjE) (intro conjI, assumption+)
  then have "\<exists>r. f_32 parse_ymd ''2022-11-02'' = Inr r
          \<and> r = (midnight 2022 11 2)\<lparr>ordinal := ordinal r\<rparr>
          \<and> ordinal (midnight 2022 11 2) < ordinal r
          \<and> is_business_day (ordinal r)"
    by (intro exI [of _ r] conjI)
  then show ?thesis using p v hi e by (intro conjI)
qed

text \<open>
  The last day a \<^verbatim>\<open>datetime\<close> can hold, 9999-12-31, is a Friday that parses; the
  first addition of a day leaves the range of the type.
\<close>

lemma valid_last_day: "valid_datetime (midnight 9999 12 31)"
proof -
  have "ymd2ord 9999 12 31 = 3652059" by code_simp
  then show ?thesis by (simp add: valid_midnight)
qed

lemma parse_last_day: "parse_ymd ''9999-12-31'' = Inr (midnight 9999 12 31)"
  by code_simp

lemma f_32_last_day:
  "f_32 parse_ymd ''9999-12-31'' = Inl (OverflowError ''date value out of range'')"
  by code_simp

text \<open>
  C8 as stated fails: \<^verbatim>\<open>'9999-12-31'\<close> parses, and \<open>f_32\<close> raises
  \<^verbatim>\<open>OverflowError\<close> on it instead of returning a date.
\<close>

theorem f_32_last_day_counterexample:
  "parse_ymd ''9999-12-31'' = Inr (midnight 9999 12 31)
   \<and> valid_datetime (midnight 9999 12 31)
   \<and> f_32 parse_ymd ''9999-12-31'' = Inl (OverflowError ''date value out of range'')"
  using parse_last_day valid_last_day f_32_last_day by (intro conjI)

text \<open>
  C10 (amended).  For every parsed date the loop of \<open>f_32\<close> ends within three
  iterations.  For a date before 9999-12-31 it returns the input moved forward by one, two
  or three days; for 9999-12-31 the first iteration raises \<^verbatim>\<open>OverflowError\<close>.
\<close>

theorem f_32_terminates_within_three:
  "parse date_str = Inr given_date \<and> valid_datetime given_date
   \<longrightarrow> f_32_loop_upto 3 given_date = Some (f_32 parse date_str)
       \<and> (ordinal given_date < MAXORDINAL
            \<longrightarrow> (\<exists>k. 1 \<le> k \<and> k \<le> 3
                   \<and> f_32 parse date_str = Inr (given_date\<lparr>ordinal := ordinal given_date + k\<rparr>)))
       \<and> (ordinal given_date = MAXORDINAL
            \<longrightarrow> f_32 parse date_str = Inl (OverflowError ''date value out of range''))"
proof (intro impI, elim conjE)
  assume p: "parse date_str = Inr given_date" and v: "valid_datetime given_date"
  let ?n = "ordinal given_date"
  have lo: "0 \<le> ?n" and le: "?n \<le> MAXORDINAL"
    using v by (simp_all add: valid_datetime_def)
  have a: "f_32_loop_upto 3 given_date = Some (f_32_loop given_date)"
  proof (cases "?n < MAXORDINAL")
    case True
    then show ?thesis using f_32_loop_result [OF lo] by simp
  next
    case False
    then have "add_days given_date 1 = Inl (OverflowError ''date value out of range'')"
      by (simp add: add_days_def Let_def)
    then show ?thesis
      using False by (simp add: f_32_loop_overflow numeral_3_eq_3 f_32_loop_upto.simps)
  qed
  have b: "\<exists>k. 1 \<le> k \<and> k \<le> 3
             \<and> f_32_loop given_date = Inr (given_date\<lparr>ordinal := ?n + k\<rparr>)"
    if "?n < MAXORDINAL"
    using f_32_loop_result [OF lo that] days_to_next_range [of ?n] by blast
  have c: "f_32_loop given_date = Inl (OverflowError ''date value out of range'')"
    if "?n = MAXORDINAL"
    using that by (simp add: f_32_loop_overflow)
  show "f_32_loop_upto 3 given_date = Some (f_32 parse date_str)
       \<and> (?n < MAXORDINAL
            \<longrightarrow> (\<exists>k. 1 \<le> k \<and> k \<le> 3
                   \<and> f_32 parse date_str = Inr (given_date\<lparr>ordinal := ?n + k\<rparr>)))
       \<and> (?n = MAXORDINAL
            \<longrightarrow> f_32 parse date_str = Inl (OverflowError ''date value out of range''))"
    using a b c by (simp add: f_32_parsed [of parse date_str given_date, OF p])
qed

theorem f_32_terminates_within_three_witness:
  "parse_ymd ''2022-10-28'' = Inr (midnight 2022 10 28)
   \<and> valid_datetime (midnight 2022 10 28)
   \<and> ordinal (midnight 2022 10 28) < MAXORDINAL
   \<and> f_32_loop_upto 3 (midnight 2022 10 28) = Some (f_32 parse_ymd ''2022-10-28'')
   \<and> (\<exists>k. 1 \<le> k \<and> k \<le> 3
          \<and> f_32 parse_ymd ''2022-10-28''
              = Inr ((midnight 2022 10 28)\<lparr>ordinal := ordinal (midnight 2022 10 28) + k\<rparr>))
   \<and> f_32_loop_upto 2 (midnight 2022 10 28) = None"
proof -
  have p: "parse_ymd ''2022-10-28'' = Inr (midnight 2022 10 28)" by code_simp
  have "ymd2ord 2022 10 28 = 738456" by code_simp
  then have v: "valid_datetime (midnight 2022 10 28)" by (simp add: valid_midnight)
  have hi: "ordinal (midnight 2022 10 28) < MAXORDINAL" by code_simp
  have two: "f_32_loop_upto 2 (midnight 2022 10 28) = None" by code_simp
  have pv: "parse_ymd ''2022-10-28'' = Inr (midnight 2022 10 28)
            \<and> valid_datetime (midnight 2022 10 28)"
    using p v by (intro conjI)
  have all: "f_32_loop_upto 3 (midnight 2022 10 28) = Some (f_32 parse_ymd ''2022-10-28'')
       \<and> (ordinal (midnight 2022 10 28) < MAXORDINAL
            \<longrightarrow> (\<exists>k. 1 \<le> k \<and> k \<le> 3
                   \<and> f_32 parse_ymd ''2022-10-28''
                       = Inr ((midnight 2022 10 28)
                               \<lparr>ordinal := ordinal (midnight 2022 10 28) + k\<rparr>)))
       \<and> (ordinal (midnight 2022 10 28) = MAXORDINAL
            \<longrightarrow> f_32 parse_ymd ''2022-10-28'' = Inl (OverflowError ''date value out of range''))"
    using f_32_terminates_within_three [of parse_ymd "''2022-10-28''" "midnight 2022 10 28"] pv
    by (rule mp)
  have a: "f_32_loop_upto 3 (midnight 2022 10 28) = Some (f_32 parse_ymd ''2022-10-28'')"
    using all by (rule conjunct1)
  have b: "\<exists>k. 1 \<le> k \<and> k \<le> 3
          \<and> f_32 parse_ymd ''2022-10-28''
              = Inr ((midnight 2022 10 28)\<lparr>ordinal := ordinal (midnight 2022 10 28) + k\<rparr>)"
    using all [THEN conjunct2, THEN conjunct1] hi by (rule mp)
  show ?thesis using p v hi a b two by (intro conjI)
qed

text \<open>
  C10 as stated fails: \<open>f_32\<close> is not total on the strings that parse, since it returns
  no datetime for \<^verbatim>\<open>'9999-12-31'\<close>.
\<close>

theorem f_32_not_total_counterexample:
  "(\<exists>d. parse_ymd ''9999-12-31'' = Inr d \<and> valid_datetime d)
   \<and> \<not> (\<exists>r. f_32 parse_ymd ''9999-12-31'' = Inr r)"
proof -
  have "\<exists>d. parse_ymd ''9999-12-31'' = Inr d \<and> valid_datetime d"
    using parse_last_day valid_last_day by (intro exI conjI)
  moreover have "\<not> (\<exists>r. f_32 parse_ymd ''9999-12-31'' = Inr r)"
    by (simp add: f_32_last_day)
  ultimately show ?thesis by (rule conjI)
qed

section \<open>Properties of \<open>f_391\<close>\<close>

lemma f_391_pairs:
  "f_391 can_allocate draws [[a, b], [c, d]] =
     (case randint can_allocate draws 1 100 (a * b, c * d) of Inl e \<Rightarrow> Inl e | Inr t \<Rightarrow> Inr t)"
  by (simp add: f_391_def subscript_def RANGE_def DataFrame_def split: sum.splits)

lemma reduce_in_range:
  fixes low high x :: int
  assumes "low < high"
  shows "low \<le> low + x mod (high - low) \<and> low + x mod (high - low) < high"
proof -
  have "0 \<le> x mod (high - low)" and "x mod (high - low) < high - low"
    using assms by simp_all
  then show ?thesis by arith
qed

lemma bytes_of_row_le:
  fixes r c :: int
  assumes "0 < r" and "0 < c"
  shows "ITEMSIZE * r \<le> ITEMSIZE * r * c"
proof -
  have "ITEMSIZE * r * 1 \<le> ITEMSIZE * r * c"
    using assms by (intro mult_left_mono) (simp_all add: ITEMSIZE_def)
  then show ?thesis by simp
qed

lemma check_dimensions_pair:
  assumes "0 \<le> r" and "0 \<le> c"
  shows "(\<exists>n. check_dimensions ITEMSIZE [r, c] = Inr n)
           = (ITEMSIZE * (if r = 0 then 1 else r) * (if c = 0 then 1 else c) \<le> MAX_INTP)"
proof (cases "r = 0")
  case True
  then show ?thesis using assms by (cases "c = 0") (auto simp: ITEMSIZE_def MAX_INTP_def)
next
  case False
  then have r: "0 < r" using assms by simp
  show ?thesis
  proof (cases "c = 0")
    case True
    then show ?thesis using r by (auto simp: ITEMSIZE_def MAX_INTP_def)
  next
    case False
    then have c: "0 < c" using assms by simp
    have "ITEMSIZE * r \<le> ITEMSIZE * r * c" using r c by (rule bytes_of_row_le)
    then show ?thesis using r c by auto
  qed
qed

lemma check_dimensions_negative:
  assumes "r < 0 \<or> c < 0"
  shows "\<exists>e. check_dimensions ITEMSIZE [r, c] = Inl e"
  using assms by auto

lemma allocatable_in_range:
  assumes "0 \<le> r" and "0 \<le> c" and "allocatable can_allocate r c"
  shows "r \<le> MAX_INTP \<and> c \<le> MAX_INTP"
proof -
  let ?r = "if r = 0 then 1 else r" and ?c = "if c = 0 then 1 else c"
  have le: "ITEMSIZE * ?r * ?c \<le> MAX_INTP" using assms(3) by (simp add: allocatable_def)
  have r: "0 < ?r" and c: "0 < ?c" using assms by auto
  have "?r * 1 \<le> ?r * ?c" using r c by (intro mult_left_mono) auto
  moreover have "?r * ?c \<le> ITEMSIZE * ?r * ?c" using r c by (simp add: ITEMSIZE_def)
  moreover have "?c * 1 \<le> ?c * ?r" using r c by (intro mult_left_mono) auto
  ultimately have "?r \<le> MAX_INTP" and "?c \<le> MAX_INTP"
    using le by (simp_all add: mult.commute)
  moreover have "r \<le> ?r" and "c \<le> ?c" by auto
  ultimately show ?thesis by linarith
qed

lemma empty_array_returns:
  "(\<exists>n. empty_array can_allocate (r, c) = Inr n)
     = (0 \<le> r \<and> 0 \<le> c \<and> allocatable can_allocate r c)"
proof (cases "0 \<le> r \<and> 0 \<le> c")
  case False
  then have neg: "r < 0 \<or> c < 0" by auto
  then obtain e where "check_dimensions ITEMSIZE [r, c] = Inl e"
    using check_dimensions_negative by blast
  then have "\<exists>e. empty_array can_allocate (r, c) = Inl e"
    by (simp add: empty_array_def)
  then show ?thesis using False by auto
next
  case True
  then have r: "0 \<le> r" and c: "0 \<le> c" by simp_all
  show ?thesis
  proof (cases "allocatable can_allocate r c")
    case True
    then have range: "r \<le> MAX_INTP \<and> c \<le> MAX_INTP"
      using allocatable_in_range [OF r c] by simp
    obtain n where n: "check_dimensions ITEMSIZE [r, c] = Inr n"
      using True check_dimensions_pair [OF r c] by (auto simp: allocatable_def)
    have "n = ITEMSIZE * (if r = 0 then 1 else r) * (if c = 0 then 1 else c)"
      using n by (auto split: if_splits)
    then have "(if r = 0 \<or> c = 0 then 0 else nat n) = nat (ITEMSIZE * r * c)"
      by auto
    then show ?thesis
      using True r c range n by (simp add: empty_array_def allocatable_def MAX_INTP_def)
  next
    case False
    show ?thesis
    proof (cases "\<exists>n. check_dimensions ITEMSIZE [r, c] = Inr n")
      case False
      then have "\<exists>e. empty_array can_allocate (r, c) = Inl e"
        by (cases "check_dimensions ITEMSIZE [r, c]") (auto simp: empty_array_def)
      then show ?thesis using \<open>\<not> allocatable can_allocate r c\<close> by auto
    next
      case True
      then obtain n where n: "check_dimensions ITEMSIZE [r, c] = Inr n" by blast
      have fits: "ITEMSIZE * (if r = 0 then 1 else r) * (if c = 0 then 1 else c) \<le> MAX_INTP"
        using True check_dimensions_pair [OF r c] by simp
      have "n = ITEMSIZE * (if r = 0 then 1 else r) * (if c = 0 then 1 else c)"
        using n by (auto split: if_splits)
      then have "(if r = 0 \<or> c = 0 then 0 else nat n) = nat (ITEMSIZE * r * c)"
        by auto
      moreover have "\<not> can_allocate (nat (ITEMSIZE * r * c))"
        using \<open>\<not> allocatable can_allocate r c\<close> fits by (simp add: allocatable_def)
      ultimately have "\<exists>e. empty_array can_allocate (r, c) = Inl e"
        using n by (auto simp: empty_array_def Let_def)
      then show ?thesis using \<open>\<not> allocatable can_allocate r c\<close> by auto
    qed
  qed
qed

lemma randint_returns:
  assumes "low < high"
  shows "(\<exists>t. randint can_allocate draws low high (r, c) = Inr t)
           = (0 \<le> r \<and> 0 \<le> c \<and> allocatable can_allocate r c)"
proof -
  have "(\<exists>t. randint can_allocate draws low high (r, c) = Inr t)
          = (\<exists>n. empty_array can_allocate (r, c) = Inr n)"
    using assms by (cases "empty_array can_allocate (r, c)") (auto simp: randint_def Let_def)
  then show ?thesis by (simp only: empty_array_returns)
qed

lemma randint_table:
  assumes "randint can_allocate draws low high (r, c) = Inr t" and "low < high"
  shows "n_rows t = nat r \<and> n_columns t = nat c \<and> length (cells t) = nat r
           \<and> (\<forall>row \<in> set (cells t). length row = nat c \<and> (\<forall>v \<in> set row. low \<le> v \<and> v < high))"
  using assms reduce_in_range [of low high]
  by (auto simp: randint_def Let_def split: sum.splits if_splits)

text \<open>
  C7 (amended).  For every input \<^verbatim>\<open>[[a, b], [c, d]]\<close>, \<open>f_391\<close> returns a table exactly
  when the two products are not negative and numpy can create an array of that shape
  (its size in bytes lies within the index type, and the machine has the memory); the
  table it returns has \<open>a * b\<close> rows and \<open>c * d\<close> columns, and every value in it is an
  integer from 1 to 99, whatever the generator draws.
\<close>

theorem f_391_shape_and_range:
  "((\<exists>df. f_391 can_allocate draws [[a, b], [c, d]] = Inr df)
      = (0 \<le> a * b \<and> 0 \<le> c * d \<and> allocatable can_allocate (a * b) (c * d)))
   \<and> (f_391 can_allocate draws [[a, b], [c, d]] = Inr df
        \<longrightarrow> int (n_rows df) = a * b \<and> int (n_columns df) = c * d
          \<and> int (length (cells df)) = a * b
          \<and> (\<forall>row \<in> set (cells df). int (length row) = c * d
                \<and> (\<forall>v \<in> set row. 1 \<le> v \<and> v < 100 \<and> v \<le> 99)))"
proof (intro conjI impI)
  have "(\<exists>df. f_391 can_allocate draws [[a, b], [c, d]] = Inr df)
          = (\<exists>t. randint can_allocate draws 1 100 (a * b, c * d) = Inr t)"
    by (cases "randint can_allocate draws 1 100 (a * b, c * d)") (simp_all add: f_391_pairs)
  then show "(\<exists>df. f_391 can_allocate draws [[a, b], [c, d]] = Inr df)
      = (0 \<le> a * b \<and> 0 \<le> c * d \<and> allocatable can_allocate (a * b) (c * d))"
    by (simp only: randint_returns [of 1 100, simplified])
next
  assume ret: "f_391 can_allocate draws [[a, b], [c, d]] = Inr df"
  then have run: "randint can_allocate draws 1 100 (a * b, c * d) = Inr df"
    by (cases "randint can_allocate draws 1 100 (a * b, c * d)") (simp_all add: f_391_pairs)
  then have "\<exists>t. randint can_allocate draws 1 100 (a * b, c * d) = Inr t" by blast
  then have nonneg: "0 \<le> a * b" "0 \<le> c * d"
    by (simp_all only: randint_returns [of 1 100, simplified])
  have t: "n_rows df = nat (a * b)" "n_columns df = nat (c * d)"
      "length (cells df) = nat (a * b)"
      "\<forall>row \<in> set (cells df). length row = nat (c * d) \<and> (\<forall>v \<in> set row. 1 \<le> v \<and> v < 100)"
    using randint_table [OF run] by simp_all
  show "int (n_rows df) = a * b" and "int (n_columns df) = c * d"
    and "int (length (cells df)) = a * b"
    using t nonneg by simp_all
  show "\<forall>row \<in> set (cells df). int (length row) = c * d
                \<and> (\<forall>v \<in> set row. 1 \<le> v \<and> v < 100 \<and> v \<le> 99)"
    using t(4) nonneg by fastforce
qed

text \<open>
  C7 as stated fails.  For \<^verbatim>\<open>[[-1, 2], [1, 1]]\<close> the row count is \<open>-2\<close>, and for
  \<^verbatim>\<open>[[2**40, 2**40], [0, 1]]\<close> it is \<open>2 ^ 80\<close>, beyond the index type: in both cases
  \<^verbatim>\<open>np.random.randint\<close> raises \<^verbatim>\<open>ValueError\<close> instead of returning a table.
\<close>

theorem f_391_negative_counterexample:
  "f_391 example_memory example_draws [[-1, 2], [1, 1]]
     = Inl (ValueError ''negative dimensions are not allowed'')
   \<and> f_391 example_memory example_draws [[2 ^ 40, 2 ^ 40], [0, 1]]
     = Inl (ValueError ''Maximum allowed dimension exceeded'')"
  by (simp add: f_391_pairs randint_def empty_array_def MAX_INTP_def ITEMSIZE_def)

theorem f_391_shape_and_range_witness:
  "(0::int) \<le> 2 * 1 \<and> (0::int) \<le> 1 * 3 \<and> allocatable example_memory (2 * 1) (1 * 3)
   \<and> f_391 example_memory example_draws [[2, 1], [1, 3]]
       = Inr \<lparr>n_rows = 2, n_columns = 3, cells = [[4, 11, 18], [25, 32, 39]]\<rparr>"
proof -
  have h: "(0::int) \<le> 2 * 1 \<and> (0::int) \<le> 1 * 3 \<and> allocatable example_memory (2 * 1) (1 * 3)"
    by (simp add: allocatable_def example_memory_def ITEMSIZE_def MAX_INTP_def)
  then obtain df where r: "f_391 example_memory example_draws [[2, 1], [1, 3]] = Inr df"
    using f_391_shape_and_range [of example_memory example_draws 2 1 1 3] by blast
  have m: "example_memory 48" by (simp add: example_memory_def)
  have e: "f_391 example_memory example_draws [[2, 1], [1, 3]]
       = Inr \<lparr>n_rows = 2, n_columns = 3, cells = [[4, 11, 18], [25, 32, 39]]\<rparr>"
    by (simp add: f_391_pairs randint_def empty_array_def MAX_INTP_def ITEMSIZE_def m
          example_draws_def Let_def upt_conv_Cons numeral_2_eq_2 numeral_3_eq_3)
  show ?thesis using h e r by simp
qed
section \<open>Properties of \<open>f_220\<close>\<close>

subsection \<open>What \<open>re_match\<close> decides\<close>

lemma matches_empty_lang: "matches_empty r \<longleftrightarrow> [] \<in> lang r"
  by (induction r) (auto intro: repeats_none)

lemma repeats_first_char:
  assumes "x \<in> repeats A" and "x = c # w"
  shows "\<exists>u v. w = u @ v \<and> c # u \<in> A \<and> v \<in> repeats A"
  using assms
proof (induction arbitrary: w rule: repeats.induct)
  case repeats_none
  then show ?case by simp
next
  case (repeats_more u v)
  show ?case
  proof (cases u)
    case Nil
    then show ?thesis using repeats_more by simp
  next
    case (Cons a u')
    then have "a = c" and "w = u' @ v" using repeats_more.prems by simp_all
    then show ?thesis using Cons repeats_more.hyps by blast
  qed
qed

lemma after_char_lang: "w \<in> lang (after_char c r) \<longleftrightarrow> c # w \<in> lang r"
proof (induction r arbitrary: w)
  case (Then r s)
  have "c # w \<in> lang (Then r s) \<longleftrightarrow>
          ([] \<in> lang r \<and> c # w \<in> lang s)
          \<or> (\<exists>u' v. w = u' @ v \<and> c # u' \<in> lang r \<and> v \<in> lang s)"
    by (auto simp: Cons_eq_append_conv)
  then show ?case using Then by (auto simp: matches_empty_lang)
next
  case (Many r)
  have "c # w \<in> repeats (lang r) \<longleftrightarrow>
          (\<exists>u v. w = u @ v \<and> c # u \<in> lang r \<and> v \<in> repeats (lang r))"
  proof
    assume "c # w \<in> repeats (lang r)"
    then show "\<exists>u v. w = u @ v \<and> c # u \<in> lang r \<and> v \<in> repeats (lang r)"
      by (rule repeats_first_char) simp
  next
    assume "\<exists>u v. w = u @ v \<and> c # u \<in> lang r \<and> v \<in> repeats (lang r)"
    then obtain u v where "w = u @ v" "c # u \<in> lang r" "v \<in> repeats (lang r)" by blast
    then show "c # w \<in> repeats (lang r)"
      using repeats_more [of "c # u" "lang r" v] by simp
  qed
  then show ?case using Many by auto
qed auto

lemma re_match_iff: "re_match r s \<longleftrightarrow> (\<exists>p q. s = p @ q \<and> p \<in> lang r)"
proof (induction s arbitrary: r)
  case Nil
  then show ?case by (simp add: matches_empty_lang)
next
  case (Cons c cs)
  have "(\<exists>p q. c # cs = p @ q \<and> p \<in> lang r) \<longleftrightarrow>
          [] \<in> lang r \<or> (\<exists>p' q. cs = p' @ q \<and> c # p' \<in> lang r)"
    by (auto simp: Cons_eq_append_conv)
  then show ?case using Cons by (simp add: matches_empty_lang after_char_lang)
qed

lemma repeats_chars: "w \<in> repeats {[c] | c. c \<in> S} \<longleftrightarrow> set w \<subseteq> S"
proof
  assume "w \<in> repeats {[c] | c. c \<in> S}"
  then show "set w \<subseteq> S" by (induction rule: repeats.induct) auto
next
  assume "set w \<subseteq> S"
  then show "w \<in> repeats {[c] | c. c \<in> S}"
  proof (induction w)
    case Nil
    show ?case by (rule repeats_none)
  next
    case (Cons c w)
    then have "[c] \<in> {[c] | c. c \<in> S}" and "w \<in> repeats {[c] | c. c \<in> S}" by auto
    then have "[c] @ w \<in> repeats {[c] | c. c \<in> S}" by (rule repeats_more)
    then show ?case by simp
  qed
qed

lemma lang_number: "w \<in> lang (one_or_more (Chars ''0123456789'')) \<longleftrightarrow> is_number w"
proof -
  have "w \<in> lang (one_or_more (Chars cs)) \<longleftrightarrow> w \<noteq> [] \<and> set w \<subseteq> set cs" for cs
  proof
    assume "w \<in> lang (one_or_more (Chars cs))"
    then obtain c v where "w = [c] @ v" and "c \<in> set cs" and "v \<in> repeats {[c] | c. c \<in> set cs}"
      by (auto simp: one_or_more_def)
    then show "w \<noteq> [] \<and> set w \<subseteq> set cs" by (simp add: repeats_chars)
  next
    assume a: "w \<noteq> [] \<and> set w \<subseteq> set cs"
    then obtain c v where w: "w = c # v" by (cases w) auto
    then have "c \<in> set cs" and "v \<in> repeats {[c] | c. c \<in> set cs}"
      using a by (simp_all add: repeats_chars)
    then have "\<exists>u v'. w = u @ v' \<and> u \<in> {[c] | c. c \<in> set cs}
                 \<and> v' \<in> repeats {[c] | c. c \<in> set cs}"
      using w by (intro exI [of _ "[c]"] exI [of _ v]) simp
    then show "w \<in> lang (one_or_more (Chars cs))"
      by (simp add: one_or_more_def)
  qed
  then show ?thesis by (simp add: is_number_def)
qed

lemma lang_dot_number:
  "w \<in> lang (Then (Chars ''.'') (one_or_more (Chars ''0123456789'')))
     \<longleftrightarrow> (\<exists>b. is_number b \<and> w = ''.'' @ b)"
proof -
  have "w \<in> lang (Then (Chars ''.'') (one_or_more (Chars ''0123456789'')))
     \<longleftrightarrow> (\<exists>b. b \<in> lang (one_or_more (Chars ''0123456789'')) \<and> w = ''.'' @ b)"
    by auto
  then show ?thesis by (simp add: lang_number)
qed

lemma lang_IP_REGEX:
  "p \<in> lang IP_REGEX \<longleftrightarrow>
     (\<exists>a b c d. is_number a \<and> is_number b \<and> is_number c \<and> is_number d
        \<and> p = a @ ''.'' @ b @ ''.'' @ c @ ''.'' @ d)"
proof -
  let ?num = "one_or_more (Chars ''0123456789'')"
  let ?grp = "Then (Chars ''.'') ?num"
  have three: "w \<in> lang (times 3 ?grp) \<longleftrightarrow>
      (\<exists>b c d. is_number b \<and> is_number c \<and> is_number d
         \<and> w = ''.'' @ b @ ''.'' @ c @ ''.'' @ d)" for w
  proof -
    have "w \<in> lang (times 3 ?grp) \<longleftrightarrow>
        (\<exists>x y z. x \<in> lang ?grp \<and> y \<in> lang ?grp \<and> z \<in> lang ?grp \<and> w = x @ y @ z)"
      by (auto simp: numeral_3_eq_3 simp del: lang.simps(5)
            simp add: lang.simps(5) [of ?grp])
    also have "\<dots> \<longleftrightarrow> (\<exists>b c d. is_number b \<and> is_number c \<and> is_number d
         \<and> w = ''.'' @ b @ ''.'' @ c @ ''.'' @ d)"
      unfolding lang_dot_number by (metis append.assoc)
    finally show ?thesis .
  qed
  have "p \<in> lang IP_REGEX \<longleftrightarrow> (\<exists>a w. a \<in> lang ?num \<and> w \<in> lang (times 3 ?grp) \<and> p = a @ w)"
    unfolding IP_REGEX_def lang.simps(5) [of ?num] by auto
  then show ?thesis unfolding three lang_number by blast
qed

lemma re_match_IP_REGEX:
  "re_match IP_REGEX s \<longleftrightarrow>
     (\<exists>a b c d rest. is_number a \<and> is_number b \<and> is_number c \<and> is_number d
        \<and> s = a @ ''.'' @ b @ ''.'' @ c @ ''.'' @ d @ rest)"
proof -
  have "re_match IP_REGEX s \<longleftrightarrow> (\<exists>p rest. s = p @ rest \<and> p \<in> lang IP_REGEX)"
    by (rule re_match_iff)
  also have "\<dots> \<longleftrightarrow> (\<exists>a b c d rest. is_number a \<and> is_number b \<and> is_number c \<and> is_number d
        \<and> s = (a @ ''.'' @ b @ ''.'' @ c @ ''.'' @ d) @ rest)"
    unfolding lang_IP_REGEX by blast
  finally show ?thesis by simp
qed

subsection \<open>The dictionary\<close>

lemma dict_keys_dict_set:
  "dict_keys (dict_set d k v) =
     (if k \<in> set (dict_keys d) then dict_keys d else dict_keys d @ [k])"
proof (induction d)
  case Nil
  then show ?case by (simp add: dict_keys_def)
next
  case (Cons kv d)
  obtain k' v' where kv: "kv = (k', v')" by (cases kv)
  show ?case
  proof (cases "k' = k")
    case True
    then show ?thesis using kv by (simp add: dict_keys_def)
  next
    case False
    then show ?thesis using kv Cons by (simp add: dict_keys_def)
  qed
qed

lemma set_dict_set: "set (dict_set d k v) \<subseteq> insert (k, v) (set d)"
proof (induction d)
  case Nil
  then show ?case by simp
next
  case (Cons kv d)
  obtain k' v' where kv: "kv = (k', v')" by (cases kv)
  show ?case
  proof (cases "k' = k")
    case True
    then show ?thesis using kv by auto
  next
    case False
    then show ?thesis using kv Cons by auto
  qed
qed

lemma first_seen_filter: "first_seen (filter P xs) = filter P (first_seen xs)"
proof (induction xs)
  case Nil
  then show ?case by simp
next
  case (Cons x xs)
  have swap: "filter (\<lambda>y. y \<noteq> x) (filter P (first_seen xs))
          = filter P (filter (\<lambda>y. y \<noteq> x) (first_seen xs))"
    by (simp add: conj_commute)
  show ?case
  proof (cases "P x")
    case True
    then show ?thesis using Cons swap by simp
  next
    case False
    then have "filter P (filter (\<lambda>y. y \<noteq> x) (first_seen xs)) = filter P (first_seen xs)"
      by (auto intro: filter_cong)
    then show ?thesis using Cons False by simp
  qed
qed

lemma set_first_seen: "set (first_seen xs) = set xs"
  by (induction xs) auto

lemma distinct_first_seen: "distinct (first_seen xs)"
  by (induction xs) (auto simp: set_first_seen)

subsection \<open>The loop\<close>

lemma f_220_loop_keys:
  assumes "f_220_loop g n ips acc = Inr d"
  shows "dict_keys d =
           dict_keys acc
           @ filter (\<lambda>k. k \<notin> set (dict_keys acc)) (first_seen (filter (re_match IP_REGEX) ips))"
  using assms
proof (induction ips arbitrary: n acc)
  case Nil
  then show ?case by simp
next
  case (Cons ip rest)
  let ?ms = "first_seen (filter (re_match IP_REGEX) rest)"
  show ?case
  proof (cases "re_match IP_REGEX ip")
    case False
    then show ?thesis using Cons by simp
  next
    case True
    obtain v where run: "f_220_loop g (Suc n) rest (dict_set acc ip v) = Inr d"
      using Cons.prems True by (auto split: gethost_result.splits)
    let ?acc' = "dict_set acc ip v"
    have ih: "dict_keys d =
        dict_keys ?acc' @ filter (\<lambda>k. k \<notin> set (dict_keys ?acc')) ?ms"
      using run by (rule Cons.IH)
    show ?thesis
    proof (cases "ip \<in> set (dict_keys acc)")
      case True
      then have "filter (\<lambda>k. k \<notin> set (dict_keys acc)) (filter (\<lambda>y. y \<noteq> ip) ?ms)
                  = filter (\<lambda>k. k \<notin> set (dict_keys acc)) ?ms"
        by (auto intro: filter_cong)
      then show ?thesis
        using ih True \<open>re_match IP_REGEX ip\<close> by (simp add: dict_keys_dict_set)
    next
      case False
      have "filter (\<lambda>k. k \<notin> set (dict_keys acc @ [ip])) ?ms
              = filter (\<lambda>k. k \<notin> set (dict_keys acc)) (filter (\<lambda>y. y \<noteq> ip) ?ms)"
        by (auto intro: filter_cong)
      then show ?thesis
        using ih False \<open>re_match IP_REGEX ip\<close> by (simp add: dict_keys_dict_set)
    qed
  qed
qed

lemma f_220_loop_entries:
  assumes "f_220_loop g n ips acc = Inr d" and "(k, v) \<in> set d"
  shows "(k, v) \<in> set acc
         \<or> (k \<in> set ips \<and> re_match IP_REGEX k
             \<and> ((v = None \<and> (\<exists>m. g m k = HError \<or> g m k = GAIError))
                  \<or> (\<exists>h m aliases addrs. v = Some h \<and> g m k = Host h aliases addrs)))"
  using assms
proof (induction ips arbitrary: n acc)
  case Nil
  then show ?case by simp
next
  case (Cons ip rest)
  let ?answered = "\<lambda>k v. (v = None \<and> (\<exists>m. g m k = HError \<or> g m k = GAIError))
                          \<or> (\<exists>h m aliases addrs. v = Some h \<and> g m k = Host h aliases addrs)"
  show ?case
  proof (cases "re_match IP_REGEX ip")
    case False
    then have "f_220_loop g n rest acc = Inr d" using Cons.prems by simp
    then have "(k, v) \<in> set acc \<or> (k \<in> set rest \<and> re_match IP_REGEX k \<and> ?answered k v)"
      using Cons.prems(2) by (rule Cons.IH)
    then show ?thesis
    proof
      assume "(k, v) \<in> set acc"
      then show ?thesis by (rule disjI1)
    next
      assume "k \<in> set rest \<and> re_match IP_REGEX k \<and> ?answered k v"
      then have "k \<in> set (ip # rest) \<and> re_match IP_REGEX k \<and> ?answered k v" by simp
      then show ?thesis by (rule disjI2)
    qed
  next
    case True
    have "\<exists>v'. f_220_loop g (Suc n) rest (dict_set acc ip v') = Inr d \<and> ?answered ip v'"
    proof (cases "g n ip")
      case (Host hostname aliases addrs)
      then have "f_220_loop g (Suc n) rest (dict_set acc ip (Some hostname)) = Inr d"
        using Cons.prems(1) True by simp
      moreover have "?answered ip (Some hostname)" using Host by blast
      ultimately show ?thesis by blast
    next
      case HError
      then have "f_220_loop g (Suc n) rest (dict_set acc ip None) = Inr d"
        using Cons.prems(1) True by simp
      moreover have "?answered ip None" using HError by blast
      ultimately show ?thesis by blast
    next
      case GAIError
      then have "f_220_loop g (Suc n) rest (dict_set acc ip None) = Inr d"
        using Cons.prems(1) True by simp
      moreover have "?answered ip None" using GAIError by blast
      ultimately show ?thesis by blast
    next
      case (Raises e)
      then show ?thesis using Cons.prems(1) True by simp
    qed
    then obtain v' where run: "f_220_loop g (Suc n) rest (dict_set acc ip v') = Inr d"
      and v': "?answered ip v'"
      by blast
    have "(k, v) \<in> set (dict_set acc ip v')
         \<or> (k \<in> set rest \<and> re_match IP_REGEX k \<and> ?answered k v)"
      using run Cons.prems(2) by (rule Cons.IH)
    moreover have "(k, v) \<in> set (dict_set acc ip v') \<Longrightarrow> (k, v) = (ip, v') \<or> (k, v) \<in> set acc"
      using set_dict_set [of acc ip v'] by auto
    ultimately consider "(k, v) \<in> set acc" | "k = ip \<and> v = v'"
      | "k \<in> set rest \<and> re_match IP_REGEX k \<and> ?answered k v"
      by blast
    then show ?thesis
    proof cases
      case 1
      then show ?thesis by simp
    next
      case 2
      then have "k \<in> set (ip # rest) \<and> re_match IP_REGEX k \<and> ?answered k v"
        using True v' by simp
      then show ?thesis by (rule disjI2)
    next
      case 3
      then have "k \<in> set (ip # rest) \<and> re_match IP_REGEX k \<and> ?answered k v"
        by simp
      then show ?thesis by (rule disjI2)
    qed
  qed
qed

lemma f_220_loop_returns:
  assumes "raises_only_caught g"
  shows "\<exists>d. f_220_loop g n ips acc = Inr d"
  using assms
proof (induction ips arbitrary: n acc)
  case Nil
  then show ?case by simp
next
  case (Cons ip rest)
  then show ?case
    by (cases "g n ip") (auto simp: raises_only_caught_def)
qed

text \<open>
  C1 (amended).  For every input list, when \<open>f_220\<close> returns a dictionary, every key of
  it is an element of the input that matches the pattern (it starts with four numbers
  separated by dots), and the keys are the matching elements of the input in the order in
  which they are first seen.  The value of a key is \<^verbatim>\<open>None\<close>, after a lookup of that
  address that raised \<^verbatim>\<open>socket.herror\<close> or \<^verbatim>\<open>socket.gaierror\<close>, or a host name the
  resolver returned for that address, stored as it is: it is not empty when the resolver
  returns no empty name.  A dictionary is returned whenever the resolver raises nothing
  but the two exceptions.
\<close>

theorem f_220_keys_and_values:
  "(raises_only_caught gethostbyaddr
      \<longrightarrow> (\<exists>hostnames. f_220 gethostbyaddr ip_addresses = Inr hostnames))
   \<and> (f_220 gethostbyaddr ip_addresses = Inr hostnames
        \<longrightarrow> (\<forall>(ip, name) \<in> set hostnames.
                ip \<in> set ip_addresses \<and> re_match IP_REGEX ip
                \<and> (\<exists>a b c d rest. is_number a \<and> is_number b \<and> is_number c \<and> is_number d
                      \<and> ip = a @ ''.'' @ b @ ''.'' @ c @ ''.'' @ d @ rest)
                \<and> ((name = None
                      \<and> (\<exists>n. gethostbyaddr n ip = HError \<or> gethostbyaddr n ip = GAIError))
                    \<or> (\<exists>h n aliases addrs. name = Some h
                          \<and> gethostbyaddr n ip = Host h aliases addrs))
                \<and> (names_nonempty gethostbyaddr
                      \<longrightarrow> name = None \<or> (\<exists>h. name = Some h \<and> h \<noteq> [])))
           \<and> dict_keys hostnames = first_seen (filter (re_match IP_REGEX) ip_addresses)
           \<and> distinct (dict_keys hostnames))"
proof (intro conjI impI)
  assume "raises_only_caught gethostbyaddr"
  then show "\<exists>hostnames. f_220 gethostbyaddr ip_addresses = Inr hostnames"
    unfolding f_220_def by (rule f_220_loop_returns)
next
  assume ret: "f_220 gethostbyaddr ip_addresses = Inr hostnames"
  then have run: "f_220_loop gethostbyaddr 0 ip_addresses [] = Inr hostnames"
    by (simp add: f_220_def)
  show keys: "dict_keys hostnames = first_seen (filter (re_match IP_REGEX) ip_addresses)"
    using f_220_loop_keys [OF run] by (simp add: dict_keys_def)
  then show "distinct (dict_keys hostnames)"
    by (simp add: distinct_first_seen)
  show "\<forall>(ip, name) \<in> set hostnames.
          ip \<in> set ip_addresses \<and> re_match IP_REGEX ip
          \<and> (\<exists>a b c d rest. is_number a \<and> is_number b \<and> is_number c \<and> is_number d
                \<and> ip = a @ ''.'' @ b @ ''.'' @ c @ ''.'' @ d @ rest)
          \<and> ((name = None
                \<and> (\<exists>n. gethostbyaddr n ip = HError \<or> gethostbyaddr n ip = GAIError))
              \<or> (\<exists>h n aliases addrs. name = Some h
                    \<and> gethostbyaddr n ip = Host h aliases addrs))
          \<and> (names_nonempty gethostbyaddr
                \<longrightarrow> name = None \<or> (\<exists>h. name = Some h \<and> h \<noteq> []))"
  proof (clarify, intro conjI impI)
    fix ip name
    assume mem: "(ip, name) \<in> set hostnames"
    have "(ip, name) \<in> set []
               \<or> (ip \<in> set ip_addresses \<and> re_match IP_REGEX ip
                  \<and> ((name = None
                        \<and> (\<exists>n. gethostbyaddr n ip = HError \<or> gethostbyaddr n ip = GAIError))
                      \<or> (\<exists>h n aliases addrs. name = Some h
                            \<and> gethostbyaddr n ip = Host h aliases addrs)))"
      using run mem by (rule f_220_loop_entries)
    then have e: "ip \<in> set ip_addresses \<and> re_match IP_REGEX ip
                  \<and> ((name = None
                        \<and> (\<exists>n. gethostbyaddr n ip = HError \<or> gethostbyaddr n ip = GAIError))
                      \<or> (\<exists>h n aliases addrs. name = Some h
                            \<and> gethostbyaddr n ip = Host h aliases addrs))"
      by simp
    from e show "ip \<in> set ip_addresses" by (rule conjunct1)
    from e show "re_match IP_REGEX ip" by (rule conjunct2 [THEN conjunct1])
    from e show v: "(name = None
                \<and> (\<exists>n. gethostbyaddr n ip = HError \<or> gethostbyaddr n ip = GAIError))
              \<or> (\<exists>h n aliases addrs. name = Some h
                    \<and> gethostbyaddr n ip = Host h aliases addrs)"
      by (rule conjunct2 [THEN conjunct2])
    show "\<exists>a b c d rest. is_number a \<and> is_number b \<and> is_number c \<and> is_number d
                \<and> ip = a @ ''.'' @ b @ ''.'' @ c @ ''.'' @ d @ rest"
      using e by (simp only: re_match_IP_REGEX)
    assume nn: "names_nonempty gethostbyaddr"
    from v show "name = None \<or> (\<exists>h. name = Some h \<and> h \<noteq> [])"
    proof
      assume "name = None
                \<and> (\<exists>n. gethostbyaddr n ip = HError \<or> gethostbyaddr n ip = GAIError)"
      then show ?thesis by simp
    next
      assume "\<exists>h n aliases addrs. name = Some h \<and> gethostbyaddr n ip = Host h aliases addrs"
      then obtain h n aliases addrs
        where h: "name = Some h" "gethostbyaddr n ip = Host h aliases addrs"
        by blast
      have "h \<noteq> []" using nn h(2) unfolding names_nonempty_def by blast
      then show ?thesis using h(1) by simp
    qed
  qed
qed

text \<open>
  C1 as stated fails: a resolver can answer with an empty host name, and \<open>f_220\<close>
  stores it as it is, so the value of the key is the empty string, which is neither a
  non-empty host name nor \<^verbatim>\<open>None\<close>.
\<close>

theorem f_220_empty_name_counterexample:
  "f_220 nameless_resolver [''10.0.0.1''] = Inr [(''10.0.0.1'', Some [])]"
  by code_simp

lemma example_resolver_raises: "raises_only_caught example_resolver"
  by (simp add: raises_only_caught_def example_resolver_def)

theorem f_220_keys_and_values_witness:
  "raises_only_caught example_resolver
   \<and> f_220 example_resolver [''8.8.8.8'', ''x'', ''256.256.256.256'', ''8.8.4.4'', ''8.8.8.8'']
       = Inr [(''8.8.8.8'', Some ''dns.google''), (''256.256.256.256'', None),
              (''8.8.4.4'', Some ''dns.google'')]
   \<and> dict_keys [(''8.8.8.8'', Some ''dns.google''), (''256.256.256.256'', None),
                 (''8.8.4.4'', Some ''dns.google'')]
       = first_seen (filter (re_match IP_REGEX)
           [''8.8.8.8'', ''x'', ''256.256.256.256'', ''8.8.4.4'', ''8.8.8.8''])"
proof -
  let ?ips = "[''8.8.8.8'', ''x'', ''256.256.256.256'', ''8.8.4.4'', ''8.8.8.8'']"
  let ?d = "[(''8.8.8.8'', Some ''dns.google''), (''256.256.256.256'', None),
              (''8.8.4.4'', Some ''dns.google'')]"
  have run: "f_220 example_resolver ?ips = Inr ?d"
    by code_simp
  have "f_220 example_resolver ?ips = Inr ?d
          \<longrightarrow> (\<forall>(ip, name) \<in> set ?d.
                ip \<in> set ?ips \<and> re_match IP_REGEX ip
                \<and> (\<exists>a b c d rest. is_number a \<and> is_number b \<and> is_number c \<and> is_number d
                      \<and> ip = a @ ''.'' @ b @ ''.'' @ c @ ''.'' @ d @ rest)
                \<and> ((name = None
                      \<and> (\<exists>n. example_resolver n ip = HError \<or> example_resolver n ip = GAIError))
                    \<or> (\<exists>h n aliases addrs. name = Some h
                          \<and> example_resolver n ip = Host h aliases addrs))
                \<and> (names_nonempty example_resolver
                      \<longrightarrow> name = None \<or> (\<exists>h. name = Some h \<and> h \<noteq> [])))
           \<and> dict_keys ?d = first_seen (filter (re_match IP_REGEX) ?ips)
           \<and> distinct (dict_keys ?d)"
    using f_220_keys_and_values [of example_resolver ?ips ?d] by (rule conjunct2)
  then have "dict_keys ?d = first_seen (filter (re_match IP_REGEX) ?ips)"
    using run by (elim impE conjE) assumption+
  then show ?thesis using example_resolver_raises run by (intro conjI)
qed
section \<open>Properties of \<open>f_410\<close>\<close>

text \<open>The row the loop builds in iteration \<open>i\<close>.\<close>

lemma f_410_rows_eq:
  "f_410_rows clock draws idx data =
     data @ map (\<lambda>i. [Text (clock i),
                       Number (random_randint (draws (4 * i)) 0 50),
                       Number (random_randint (draws (4 * i + 1)) 0 50),
                       Number (random_randint (draws (4 * i + 2)) 0 50),
                       Number (random_randint (draws (4 * i + 3)) 0 50)]) idx"
proof (induction idx arbitrary: data)
  case Nil
  then show ?case by simp
next
  case (Cons i idx)
  have len4: "length VEHICLE_TYPES = 4"
    by (simp add: VEHICLE_TYPES_def)
  have idx4: "[0..<4] = [0, 1, 2, 3::nat]"
    by code_simp
  show ?case using Cons by (simp add: len4 idx4)
qed

lemma random_randint_range: "0 \<le> random_randint raw 0 50 \<and> random_randint raw 0 50 \<le> 50"
proof -
  have "0 \<le> int raw mod 51" and "int raw mod 51 < 51" by simp_all
  then show ?thesis by (simp add: random_randint_def)
qed

lemma header_csv_line:
  "csv_line ([Text ''Time''] @ map Text VEHICLE_TYPES) = ''Time,Car,Bus,Truck,Bike''"
  by (simp add: csv_line_def csv_field_def needs_quotes_def VEHICLE_TYPES_def)

lemma f_410_rows_lines:
  "map csv_line
     (f_410_rows clock draws [0..<n] [[Text ''Time''] @ map Text VEHICLE_TYPES])
   = ''Time,Car,Bus,Truck,Bike''
     # map (\<lambda>i. csv_line [Text (clock i),
                       Number (random_randint (draws (4 * i)) 0 50),
                       Number (random_randint (draws (4 * i + 1)) 0 50),
                       Number (random_randint (draws (4 * i + 2)) 0 50),
                       Number (random_randint (draws (4 * i + 3)) 0 50)]) [0..<n]"
  using header_csv_line by (simp add: f_410_rows_eq comp_def)

text \<open>
  C5 (amended).  For every hour count that is not negative: when the output directory
  exists or is created (its path is not empty and \<^verbatim>\<open>os.makedirs\<close> is not refused) and the
  file \<^verbatim>\<open>os.path.join(output_dir, 'traffic_data.csv')\<close> is opened for writing (the
  directory part of its path is no regular file, the path is no directory, and \<^verbatim>\<open>open\<close>
  is not refused), that file holds the header \<^verbatim>\<open>Time,Car,Bus,Truck,Bike\<close> followed by
  exactly one row per hour; row \<open>i\<close> is the timestamp read in iteration \<open>i\<close> followed by
  four counts between 0 and 50, one per vehicle category; the path of that file is
  returned, with \<^verbatim>\<open>None\<close> for the plot when the hour count is 0 and with a plot
  otherwise.  The output directory exists afterwards and no other file is changed.
\<close>

theorem f_410_file_and_plot:
  assumes "0 \<le> hours"
    and "path_exists fs output_dir \<or> (output_dir \<noteq> [] \<and> mkdir_refused os output_dir = None)"
    and "files fs (dirname (path_join output_dir ''traffic_data.csv'')) = None"
    and "path_join output_dir ''traffic_data.csv'' \<notin> dirs fs"
    and "open_refused os (path_join output_dir ''traffic_data.csv'') = None"
  shows "\<exists>fs' ax rows.
           f_410 os clock draws fs hours output_dir
             = Inr (fs', path_join output_dir ''traffic_data.csv'', ax)
         \<and> files fs' (path_join output_dir ''traffic_data.csv'')
             = Some (''Time,Car,Bus,Truck,Bike'' # rows)
         \<and> int (length rows) = hours
         \<and> (\<forall>i < length rows. \<exists>car bus truck bike.
               0 \<le> car \<and> car \<le> 50 \<and> 0 \<le> bus \<and> bus \<le> 50
               \<and> 0 \<le> truck \<and> truck \<le> 50 \<and> 0 \<le> bike \<and> bike \<le> 50
               \<and> rows ! i = csv_line [Text (clock i), Number car, Number bus,
                                        Number truck, Number bike])
         \<and> (hours = 0 \<longrightarrow> ax = None)
         \<and> (0 < hours \<longrightarrow> ax \<noteq> None)
         \<and> path_exists fs' output_dir
         \<and> (\<forall>p. p \<noteq> path_join output_dir ''traffic_data.csv'' \<longrightarrow> files fs' p = files fs p)"
proof -
  define FILE_PATH where "FILE_PATH = path_join output_dir ''traffic_data.csv''"
  define row where "row = (\<lambda>i. [Text (clock i),
                       Number (random_randint (draws (4 * i)) 0 50),
                       Number (random_randint (draws (4 * i + 1)) 0 50),
                       Number (random_randint (draws (4 * i + 2)) 0 50),
                       Number (random_randint (draws (4 * i + 3)) 0 50)])"
  define rows where "rows = map (\<lambda>i. csv_line (row i)) [0..<nat hours]"
  define fs1 where "fs1 = (if \<not> path_exists fs output_dir then fs\<lparr>dirs := insert output_dir (dirs fs)\<rparr>
                            else fs)"
  define fs2 where "fs2 = fs1\<lparr>files := (files fs1)(FILE_PATH \<mapsto> ''Time,Car,Bus,Truck,Bike'' # rows)\<rparr>"
  define ax where "ax = (if rows = [] then None
      else Some \<lparr>title = ''Traffic Data Over Time'', xlabel = ''Time'',
                 ylabel = ''Vehicle Count'', plotted = rows\<rparr>)"
  have data: "map csv_line
                (f_410_rows clock draws [0..<nat hours] [[Text ''Time''] @ map Text VEHICLE_TYPES])
              = ''Time,Car,Bus,Truck,Bike'' # rows"
    by (simp only: f_410_rows_lines rows_def row_def)
  have dir1: "(if \<not> path_exists fs output_dir then makedirs os fs output_dir else Inr fs) = Inr fs1"
    using assms(2) by (auto simp: makedirs_def fs1_def)
  have nonempty: "output_dir \<noteq> []"
    using assms(2) by (auto simp: path_exists_def)
  have longer: "FILE_PATH \<noteq> output_dir"
    using nonempty by (simp add: FILE_PATH_def path_join_def)
  have files1: "files fs1 = files fs" and dirs1: "FILE_PATH \<notin> dirs fs1"
    using assms(4) longer by (simp_all add: fs1_def FILE_PATH_def [symmetric])
  have written1: "write_lines os fs1 FILE_PATH (''Time,Car,Bus,Truck,Bike'' # rows) = Inr fs2"
    using assms(3,5) files1 dirs1
    by (simp add: write_lines_def fs2_def FILE_PATH_def [symmetric])
  have run: "f_410 os clock draws fs hours output_dir = Inr (fs2, FILE_PATH, ax)"
    unfolding f_410_def Let_def data dir1 FILE_PATH_def [symmetric]
    by (simp add: written1) (simp add: fs2_def read_csv_def frame_empty_def ax_def)
  have written: "files fs2 FILE_PATH = Some (''Time,Car,Bus,Truck,Bike'' # rows)"
    by (simp add: fs2_def)
  have len: "int (length rows) = hours"
    using assms(1) by (simp add: rows_def)
  have each: "\<forall>i < length rows. \<exists>car bus truck bike.
               0 \<le> car \<and> car \<le> 50 \<and> 0 \<le> bus \<and> bus \<le> 50
               \<and> 0 \<le> truck \<and> truck \<le> 50 \<and> 0 \<le> bike \<and> bike \<le> 50
               \<and> rows ! i = csv_line [Text (clock i), Number car, Number bus,
                                        Number truck, Number bike]"
  proof (intro allI impI)
    fix i assume "i < length rows"
    then have "rows ! i = csv_line (row i)" by (simp add: rows_def)
    then show "\<exists>car bus truck bike.
               0 \<le> car \<and> car \<le> 50 \<and> 0 \<le> bus \<and> bus \<le> 50
               \<and> 0 \<le> truck \<and> truck \<le> 50 \<and> 0 \<le> bike \<and> bike \<le> 50
               \<and> rows ! i = csv_line [Text (clock i), Number car, Number bus,
                                        Number truck, Number bike]"
      unfolding row_def using random_randint_range by blast
  qed
  have none: "hours = 0 \<longrightarrow> ax = None"
    by (simp add: ax_def rows_def)
  have some: "0 < hours \<longrightarrow> ax \<noteq> None"
    by (simp add: ax_def rows_def)
  have dir: "path_exists fs2 output_dir"
    using nonempty by (auto simp: fs2_def fs1_def path_exists_def)
  have frame: "\<forall>p. p \<noteq> FILE_PATH \<longrightarrow> files fs2 p = files fs p"
    by (simp add: fs2_def fs1_def)
  show ?thesis
    unfolding FILE_PATH_def [symmetric]
    using run written len each none some dir frame by blast
qed

text \<open>
  C5 as stated fails.  With the empty path for the output directory \<^verbatim>\<open>os.makedirs\<close>
  raises \<^verbatim>\<open>FileNotFoundError\<close>, and with an output directory that is a regular file
  \<^verbatim>\<open>open\<close> raises \<^verbatim>\<open>NotADirectoryError\<close>: no file is written for the hour count 1,
  also when the operating system refuses nothing.
\<close>

theorem f_410_no_directory_counterexample:
  "f_410 willing example_clock example_draws empty_fs 1 []
     = Inl (FileNotFoundError ''[Errno 2] No such file or directory'')
   \<and> f_410 willing example_clock example_draws regular_file_fs 1 ''out''
     = Inl (NotADirectoryError ''[Errno 20] Not a directory'')"
proof
  show "f_410 willing example_clock example_draws empty_fs 1 []
          = Inl (FileNotFoundError ''[Errno 2] No such file or directory'')"
    by (simp add: f_410_def path_exists_def makedirs_def)
  have p: "path_join ''out'' ''traffic_data.csv'' = ''out/traffic_data.csv''"
    by (simp add: path_join_def)
  have d: "dirname ''out/traffic_data.csv'' = ''out''"
    by code_simp
  have e: "path_exists regular_file_fs ''out''"
    by (simp add: path_exists_def regular_file_fs_def)
  have "write_lines willing regular_file_fs ''out/traffic_data.csv'' ls
          = Inl (NotADirectoryError ''[Errno 20] Not a directory'')" for ls
    by (simp add: write_lines_def d regular_file_fs_def)
  then show "f_410 willing example_clock example_draws regular_file_fs 1 ''out''
          = Inl (NotADirectoryError ''[Errno 20] Not a directory'')"
    by (simp add: f_410_def e p Let_def)
qed

lemma example_path: "path_join ''./output'' ''traffic_data.csv'' = ''./output/traffic_data.csv''"
  by (simp add: path_join_def)

lemma example_dirname: "dirname ''./output/traffic_data.csv'' = ''./output''"
  by code_simp

lemma f_410_example_run:
  "(case f_410 willing example_clock example_draws empty_fs 2 ''./output'' of
      Inl e \<Rightarrow> False
    | Inr (fs', p, ax) \<Rightarrow>
        files fs' ''./output/traffic_data.csv''
          = Some [''Time,Car,Bus,Truck,Bike'', ''2021-01-01 00:00:00.000000,3,10,17,24'',
                  ''2021-01-01 00:00:01.000000,31,38,45,1'']
        \<and> ax \<noteq> None)"
  by code_simp

theorem f_410_file_and_plot_witness:
  "(0::int) \<le> 2
   \<and> ''./output'' \<noteq> [] \<and> mkdir_refused willing ''./output'' = None
   \<and> files empty_fs (dirname (path_join ''./output'' ''traffic_data.csv'')) = None
   \<and> path_join ''./output'' ''traffic_data.csv'' \<notin> dirs empty_fs
   \<and> open_refused willing (path_join ''./output'' ''traffic_data.csv'') = None
   \<and> (\<exists>fs' ax. f_410 willing example_clock example_draws empty_fs 2 ''./output''
                   = Inr (fs', ''./output/traffic_data.csv'', ax)
        \<and> files fs' ''./output/traffic_data.csv''
            = Some [''Time,Car,Bus,Truck,Bike'', ''2021-01-01 00:00:00.000000,3,10,17,24'',
                    ''2021-01-01 00:00:01.000000,31,38,45,1'']
        \<and> ax \<noteq> None)"
proof -
  have h1: "(0::int) \<le> 2" by simp
  have h2: "path_exists empty_fs ''./output''
            \<or> (''./output'' \<noteq> [] \<and> mkdir_refused willing ''./output'' = None)"
    by (simp add: willing_def)
  have h3: "files empty_fs (dirname (path_join ''./output'' ''traffic_data.csv'')) = None"
    by (simp add: empty_fs_def)
  have h4: "path_join ''./output'' ''traffic_data.csv'' \<notin> dirs empty_fs"
    by (simp add: empty_fs_def)
  have h5: "open_refused willing (path_join ''./output'' ''traffic_data.csv'') = None"
    by (simp add: willing_def)
  obtain fs' ax where run: "f_410 willing example_clock example_draws empty_fs 2 ''./output''
                   = Inr (fs', ''./output/traffic_data.csv'', ax)"
    using f_410_file_and_plot [OF h1 h2 h3 h4 h5, of example_clock example_draws]
    unfolding example_path by blast
  have "files fs' ''./output/traffic_data.csv''
            = Some [''Time,Car,Bus,Truck,Bike'', ''2021-01-01 00:00:00.000000,3,10,17,24'',
                    ''2021-01-01 00:00:01.000000,31,38,45,1'']
        \<and> ax \<noteq> None"
    using f_410_example_run unfolding run by simp
  moreover have "mkdir_refused willing ''./output'' = None" by (simp add: willing_def)
  ultimately show ?thesis using h1 h3 h4 h5 run by blast
qed
section \<open>Properties of \<open>task_func\<close>\<close>

subsection \<open>The generator\<close>

lemma state_after_add:
  "state_after gen (state_after gen g m) n = state_after gen g (m + n)"
  by (induction m arbitrary: g) simp_all

lemma nth_draw_after: "nth_draw gen (state_after gen g m) n = nth_draw gen g (m + n)"
  by (simp add: nth_draw_def state_after_add)

lemma draw_list_Suc:
  "draw_list gen g (Suc n)
     = fst (random_uniform gen (1 / 10) 1 g)
       # draw_list gen (snd (random_uniform gen (1 / 10) 1 g)) n"
proof -
  have "[0..<Suc n] = 0 # [Suc 0..<Suc n]"
    by (rule upt_conv_Cons) simp
  also have "[Suc 0..<Suc n] = map Suc [0..<n]"
    by (simp only: map_Suc_upt)
  finally have "[0..<Suc n] = 0 # map Suc [0..<n]" .
  then show ?thesis
    by (simp add: draw_list_def nth_draw_def comp_def del: upt_Suc)
qed

lemma length_draw_list: "length (draw_list gen g n) = n"
  by (simp add: draw_list_def)

lemma nth_draw_range: "1 / 10 \<le> nth_draw gen g n \<and> nth_draw gen g n \<le> 1"
proof -
  define r where "r = fst (gen (state_after gen g n)) mod 2 ^ 53"
  define u where "u = real r / 2 ^ 53"
  have "r < 2 ^ 53" by (simp add: r_def)
  then have "real r < 2 ^ 53"
    by (metis of_nat_less_iff of_nat_numeral of_nat_power)
  then have "0 \<le> u" and "u \<le> 1" by (simp_all add: u_def)
  moreover have "nth_draw gen g n = 1 / 10 + (1 - 1 / 10) * u"
    by (simp add: nth_draw_def random_uniform_def random_random_def u_def r_def)
  ultimately show ?thesis by simp
qed

subsection \<open>The dictionary of lists\<close>

lemma keys_add_at: "map fst (add_at d team i v) = map fst d"
  by (induction d) (auto simp: add_at_def)

lemma map_of_add_at:
  "map_of (add_at d team i v) k =
     (if k = team then map_option (\<lambda>xs. xs[i := xs ! i + v]) (map_of d team)
      else map_of d k)"
  by (induction d) (auto simp: add_at_def)

lemma dict_set_fresh:
  assumes "k \<notin> set (map fst d)"
  shows "dict_set d k v = d @ [(k, v)]"
  using assms by (induction d) auto

lemma init_data_distinct:
  assumes "distinct teams" and "set teams \<inter> set (map fst d) = {}"
  shows "init_data teams n d = d @ map (\<lambda>t. (t, replicate n 0)) teams"
  using assms
proof (induction teams arbitrary: d)
  case Nil
  then show ?case by simp
next
  case (Cons t teams)
  have fresh: "t \<notin> set (map fst d)" using Cons.prems by auto
  have "set teams \<inter> set (map fst (d @ [(t, replicate n 0)])) = {}"
    using Cons.prems by auto
  then have "init_data teams n (d @ [(t, replicate n 0)])
               = (d @ [(t, replicate n 0)]) @ map (\<lambda>t. (t, replicate n 0)) teams"
    using Cons.prems by (intro Cons.IH) simp_all
  then show ?case by (simp add: dict_set_fresh [OF fresh])
qed

lemma dict_by_keys:
  assumes "distinct (map fst d)"
  shows "d = map (\<lambda>k. (k, the (map_of d k))) (map fst d)"
proof -
  have "map (\<lambda>kv. (fst kv, the (map_of d (fst kv)))) d = d"
  proof (rule map_idI)
    fix kv assume "kv \<in> set d"
    then have "map_of d (fst kv) = Some (snd kv)"
      using assms by simp
    then show "(fst kv, the (map_of d (fst kv))) = kv" by simp
  qed
  then show ?thesis by (simp add: comp_def)
qed

subsection \<open>The loops\<close>

lemma credit_Cons:
  "credit k (t # teams) (v # vs) = (if t = k then v else 0) + credit k teams vs"
  by (simp add: credit_def)

lemma update_twice:
  fixes xs :: "real list"
  shows "xs[i := (xs[i := xs ! i + a]) ! i + b] = xs[i := xs ! i + (a + b)]"
  by (cases "i < length xs") (simp_all add: add.assoc list_update_beyond)

lemma teams_loop_result:
  "fst (teams_loop gen i teams (g, d)) = state_after gen g (length teams)
   \<and> map fst (snd (teams_loop gen i teams (g, d))) = map fst d
   \<and> (\<forall>k. map_of (snd (teams_loop gen i teams (g, d))) k
            = map_option (\<lambda>xs. xs[i := xs ! i + credit k teams (draw_list gen g (length teams))])
                (map_of d k))"
proof (induction teams arbitrary: g d)
  case Nil
  have "map_option (\<lambda>xs. xs[i := xs ! i + 0]) m = m" for m :: "real list option"
    by (cases m) simp_all
  then show ?case by (simp add: credit_def draw_list_def)
next
  case (Cons t teams)
  define v where "v = fst (random_uniform gen (1 / 10) 1 g)"
  define g1 where "g1 = snd (random_uniform gen (1 / 10) 1 g)"
  define d1 where "d1 = add_at d t i v"
  have step: "teams_loop gen i (t # teams) (g, d) = teams_loop gen i teams (g1, d1)"
    by (simp add: v_def g1_def d1_def case_prod_beta)
  have draws: "draw_list gen g (length (t # teams)) = v # draw_list gen g1 (length teams)"
    by (simp add: draw_list_Suc v_def g1_def)
  note ih = Cons.IH [of g1 d1]
  have "map_of (snd (teams_loop gen i teams (g1, d1))) k
          = map_option (\<lambda>xs. xs[i := xs ! i + credit k (t # teams) (v # draw_list gen g1 (length teams))])
              (map_of d k)" for k
  proof (cases "k = t")
    case True
    then show ?thesis
      using ih by (cases "map_of d t") (simp_all add: d1_def map_of_add_at credit_Cons update_twice)
  next
    case False
    then show ?thesis
      using ih by (simp add: d1_def map_of_add_at credit_Cons)
  qed
  then show ?case
    using ih unfolding step draws by (simp add: g1_def d1_def keys_add_at)
qed

lemma days_loop_result:
  "fst (days_loop gen teams idx (g, d)) = state_after gen g (length idx * length teams)
   \<and> map fst (snd (days_loop gen teams idx (g, d))) = map fst d
   \<and> (\<forall>k. map_of (snd (days_loop gen teams idx (g, d))) k
            = map_option (day_updates gen teams k g idx) (map_of d k))"
proof (induction idx arbitrary: g d)
  case Nil
  have "map_option (\<lambda>xs. xs) m = m" for m :: "real list option"
    by (cases m) simp_all
  then show ?case by simp
next
  case (Cons i idx)
  obtain g1 d1 where one: "teams_loop gen i teams (g, d) = (g1, d1)"
    by (cases "teams_loop gen i teams (g, d)")
  have g1: "g1 = state_after gen g (length teams)"
    and keys: "map fst d1 = map fst d"
    and vals: "\<And>k. map_of d1 k
            = map_option (\<lambda>xs. xs[i := xs ! i + credit k teams (draw_list gen g (length teams))])
                (map_of d k)"
    using teams_loop_result [of gen i teams g d] by (simp_all add: one)
  have unfold: "days_loop gen teams (i # idx) (g, d) = days_loop gen teams idx (g1, d1)"
    by (simp add: one)
  have ih1: "fst (days_loop gen teams idx (g1, d1)) = state_after gen g1 (length idx * length teams)"
    and ih2: "map fst (snd (days_loop gen teams idx (g1, d1))) = map fst d1"
    and ih3: "\<And>k. map_of (snd (days_loop gen teams idx (g1, d1))) k
            = map_option (day_updates gen teams k g1 idx) (map_of d1 k)"
    using Cons.IH [of g1 d1] by simp_all
  have a: "fst (days_loop gen teams (i # idx) (g, d))
             = state_after gen g (length (i # idx) * length teams)"
    using ih1 by (simp add: one g1 state_after_add)
  have b: "map fst (snd (days_loop gen teams (i # idx) (g, d))) = map fst d"
    using ih2 by (simp add: one keys)
  have c: "map_of (snd (days_loop gen teams (i # idx) (g, d))) k
          = map_option (day_updates gen teams k g (i # idx)) (map_of d k)" for k
    using ih3 [of k] vals [of k] by (cases "map_of d k") (simp_all add: one g1)
  show ?case using a b c by blast
qed

lemma day_updates_range:
  assumes "b \<le> length xs"
  shows "length (day_updates gen teams k g [a..<b] xs) = length xs
         \<and> (\<forall>i < length xs.
               day_updates gen teams k g [a..<b] xs ! i
                 = (if a \<le> i \<and> i < b then
                      xs ! i + credit k teams
                                 (draw_list gen (state_after gen g ((i - a) * length teams))
                                    (length teams))
                    else xs ! i))"
  using assms
proof (induction "b - a" arbitrary: a g xs)
  case 0
  then show ?case by simp
next
  case (Suc n)
  then have lt: "a < b" and n: "n = b - Suc a" by simp_all
  define xs1 where "xs1 = xs[a := xs ! a + credit k teams (draw_list gen g (length teams))]"
  define g1 where "g1 = state_after gen g (length teams)"
  have unfold: "day_updates gen teams k g [a..<b] xs = day_updates gen teams k g1 [Suc a..<b] xs1"
    using lt by (simp add: upt_rec [of a b] xs1_def g1_def)
  have len1: "b \<le> length xs1" using Suc.prems by (simp add: xs1_def)
  note ih = Suc.hyps(1) [OF n len1, of g1]
  have len: "length (day_updates gen teams k g [a..<b] xs) = length xs"
    using ih by (simp add: unfold xs1_def)
  have "day_updates gen teams k g1 [Suc a..<b] xs1 ! i
          = (if a \<le> i \<and> i < b then
               xs ! i + credit k teams
                          (draw_list gen (state_after gen g ((i - a) * length teams))
                             (length teams))
             else xs ! i)" if i: "i < length xs" for i
  proof -
    have i1: "i < length xs1" using i by (simp add: xs1_def)
    consider (first) "i = a" | (later) "Suc a \<le> i" "i < b" | (out) "i < a \<or> b \<le> i"
      by linarith
    then show ?thesis
    proof cases
      case first
      then show ?thesis using ih i1 lt i by (simp add: xs1_def)
    next
      case later
      then have "(i - a) * length teams = length teams + (i - Suc a) * length teams"
        by (metis Suc_diff_le diff_Suc_Suc mult_Suc)
      then show ?thesis
        using ih i1 later by (simp add: xs1_def g1_def state_after_add)
    next
      case out
      then show ?thesis using ih i1 lt by (auto simp: xs1_def)
    qed
  qed
  then show ?case using len by (simp add: unfold)
qed

lemma credit_distinct:
  assumes "distinct teams" and "j < length teams" and "length vs = length teams"
  shows "credit (teams ! j) teams vs = vs ! j"
  using assms
proof (induction teams arbitrary: j vs)
  case Nil
  then show ?case by simp
next
  case (Cons t teams)
  obtain v vs' where vs: "vs = v # vs'" using Cons.prems(3) by (cases vs) auto
  show ?case
  proof (cases j)
    case 0
    have "filter (\<lambda>p. fst p = t) (zip teams vs') = []"
      using Cons.prems(1) by (auto simp: filter_empty_conv dest: set_zip_leftD)
    then show ?thesis using 0 vs by (simp add: credit_def)
  next
    case (Suc j')
    then have "teams ! j' \<noteq> t" using Cons.prems(1,2) by auto
    then show ?thesis
      using Suc vs Cons.prems Cons.IH [of j' vs'] by (simp add: credit_Cons)
  qed
qed

lemma credit_absent:
  assumes "k \<notin> set teams"
  shows "credit k teams vs = 0"
proof -
  have "filter (\<lambda>p. fst p = k) (zip teams vs) = []"
    using assms by (auto simp: filter_empty_conv dest: set_zip_leftD)
  then show ?thesis by (simp add: credit_def)
qed

subsection \<open>The data for distinct team names\<close>

lemma days_loop_distinct:
  assumes "distinct names"
  shows "snd (days_loop gen names [0..<days] (g, map (\<lambda>t. (t, replicate days 0)) names))
           = map (\<lambda>j. (names ! j, series gen g (length names) days j)) [0..<length names]"
proof -
  define k where "k = length names"
  define d0 :: "(string \<times> real list) list" where "d0 = map (\<lambda>t. (t, replicate days 0)) names"
  define d where "d = snd (days_loop gen names [0..<days] (g, d0))"
  have keys0: "map fst d0 = names" by (simp add: d0_def comp_def)
  have keys: "map fst d = names"
    using days_loop_result [of gen names "[0..<days]" g d0] by (simp add: d_def keys0)
  have vals: "map_of d t = map_option (day_updates gen names t g [0..<days]) (map_of d0 t)" for t
    using days_loop_result [of gen names "[0..<days]" g d0] by (simp add: d_def)
  have entry: "the (map_of d (names ! j)) = series gen g k days j" if j: "j < k" for j
  proof -
    let ?t = "names ! j"
    let ?xs = "replicate days (0::real)"
    have "map_of d0 ?t = Some ?xs"
      using j by (simp add: d0_def k_def map_of_map_restrict)
    then have the: "the (map_of d ?t) = day_updates gen names ?t g [0..<days] ?xs"
      by (simp add: vals)
    have upd: "length (day_updates gen names ?t g [0..<days] ?xs) = length ?xs
         \<and> (\<forall>i < length ?xs.
               day_updates gen names ?t g [0..<days] ?xs ! i
                 = (if 0 \<le> i \<and> i < days then
                      ?xs ! i + credit ?t names
                                 (draw_list gen (state_after gen g ((i - 0) * length names))
                                    (length names))
                    else ?xs ! i))"
      by (rule day_updates_range) simp
    show ?thesis
    proof (rule nth_equalityI)
      show "length (the (map_of d ?t)) = length (series gen g k days j)"
        using upd by (simp add: the series_def)
    next
      fix i assume "i < length (the (map_of d ?t))"
      then have i: "i < days" using upd by (simp add: the)
      have "credit ?t names (draw_list gen (state_after gen g (i * k)) k)
              = draw_list gen (state_after gen g (i * k)) k ! j"
        using assms j by (intro credit_distinct) (simp_all add: k_def length_draw_list)
      also have "\<dots> = nth_draw gen g (i * k + j)"
        using j by (simp add: draw_list_def nth_draw_after)
      finally show "the (map_of d ?t) ! i = series gen g k days j ! i"
        using upd i by (simp add: the series_def k_def)
    qed
  qed
  have "d = map (\<lambda>t. (t, the (map_of d t))) (map fst d)"
    using assms keys by (intro dict_by_keys) simp
  also have "\<dots> = map (\<lambda>t. (t, the (map_of d t))) (map (\<lambda>j. names ! j) [0..<k])"
    by (simp add: keys k_def map_nth)
  also have "\<dots> = map (\<lambda>j. (names ! j, series gen g k days j)) [0..<k]"
    using entry by (simp add: comp_def)
  finally show ?thesis by (simp add: d_def d0_def k_def)
qed

lemma timedelta_days_nonneg: "0 \<le> delta \<Longrightarrow> 0 \<le> timedelta_days delta"
  by (simp add: timedelta_days_def DAY_def pos_imp_zdiv_nonneg_iff)

lemma timedelta_days_neg: "delta < 0 \<Longrightarrow> timedelta_days delta < 0"
  by (simp add: timedelta_days_def DAY_def neg_imp_zdiv_neg_iff)

lemma task_func_distinct:
  assumes valid: "is_list_of_str teams"
    and dist: "distinct (map str_value (list_items teams))"
    and conv: "fromtimestamp env epoch_milliseconds = Inr start_time"
    and past: "start_time \<le> now env"
  shows "task_func env g0 epoch_milliseconds teams random_seed =
     (let names = map str_value (list_items teams);
          days = nat (timedelta_days (now env - start_time));
          data = map (\<lambda>j. (names ! j,
                            series (genrand env) (seed env random_seed) (length names) days j))
                   [0..<length names]
      in (state_after (genrand env) (seed env random_seed) (days * length names),
          Inr (data,
               \<lparr>plot_lines = map (\<lambda>(team, performance). (team, [0..<days], performance)) data,
                x_label = ''Days since '' @ strftime env start_time,
                y_label = ''Performance''\<rparr>)))"
proof -
  define names where "names = map str_value (list_items teams)"
  define days where "days = nat (timedelta_days (now env - start_time))"
  define g where "g = seed env random_seed"
  have nonneg: "\<not> timedelta_days (now env - start_time) < 0"
    using past timedelta_days_nonneg [of "now env - start_time"] by simp
  have dn: "distinct names" using dist by (simp add: names_def)
  have init: "init_data names days [] = map (\<lambda>t. (t, replicate days 0)) names"
    using dn by (simp add: init_data_distinct)
  obtain g' d where run: "days_loop (genrand env) names [0..<days] (g, init_data names days []) = (g', d)"
    by (cases "days_loop (genrand env) names [0..<days] (g, init_data names days [])")
  have g': "g' = state_after (genrand env) g (days * length names)"
    using days_loop_result [of "genrand env" names "[0..<days]" g "init_data names days []"]
    by (simp add: run)
  have d: "d = map (\<lambda>j. (names ! j, series (genrand env) g (length names) days j))
                 [0..<length names]"
    using days_loop_distinct [OF dn, of "genrand env" days g] run
    by (simp add: init)
  have run': "days_loop (genrand env) names [0..<days] (g, init_data names days [])
               = (state_after (genrand env) g (days * length names),
                  map (\<lambda>j. (names ! j, series (genrand env) g (length names) days j))
                    [0..<length names])"
    using run by (simp add: g' d)
  show ?thesis
    using valid conv nonneg
    unfolding task_func_def Let_def names_def [symmetric] g_def [symmetric]
    by (simp add: days_def [symmetric] run')
qed


subsection \<open>The series\<close>

text \<open>
  C3 (amended).  For every timestamp that converts to a start time not after the current
  time and every list of distinct team names, the mapping returned by \<open>task_func\<close> has
  one entry per team, in the order of the list, and every entry's value is a sequence
  whose length is the whole-day difference between the start time and the current time,
  with every element between 0.1 and 1.0.
\<close>

theorem task_func_series:
  assumes "is_list_of_str teams"
    and "distinct (map str_value (list_items teams))"
    and "fromtimestamp env epoch_milliseconds = Inr start_time"
    and "start_time \<le> now env"
  shows "\<exists>g' data fig.
           task_func env g0 epoch_milliseconds teams random_seed = (g', Inr (data, fig))
         \<and> map fst data = map str_value (list_items teams)
         \<and> (\<forall>(team, performance) \<in> set data.
               int (length performance) = timedelta_days (now env - start_time)
               \<and> (\<forall>x \<in> set performance. 1 / 10 \<le> x \<and> x \<le> 1))"
proof -
  define names where "names = map str_value (list_items teams)"
  define days where "days = nat (timedelta_days (now env - start_time))"
  define data where
    "data = map (\<lambda>j. (names ! j,
                       series (genrand env) (seed env random_seed) (length names) days j))
              [0..<length names]"
  have days: "int days = timedelta_days (now env - start_time)"
    using assms(4) timedelta_days_nonneg [of "now env - start_time"] by (simp add: days_def)
  have run: "\<exists>g' fig. task_func env g0 epoch_milliseconds teams random_seed
                        = (g', Inr (data, fig))"
    using task_func_distinct [OF assms, of g0 random_seed]
    by (simp add: Let_def names_def days_def data_def)
  have keys: "map fst data = names"
    by (simp add: data_def comp_def map_nth)
  have each: "\<forall>(team, performance) \<in> set data.
               int (length performance) = timedelta_days (now env - start_time)
               \<and> (\<forall>x \<in> set performance. 1 / 10 \<le> x \<and> x \<le> 1)"
    using days nth_draw_range [of "genrand env" "seed env random_seed"]
    by (auto simp: data_def series_def)
  show ?thesis
    using run keys each unfolding names_def by blast
qed

lemma example_two_days:
  "fromtimestamp example_env 1699827200000 = Inr 1699827200000000
   \<and> 1699827200000000 \<le> now example_env
   \<and> timedelta_days (now example_env - 1699827200000000) = 2"
  by (simp add: example_env_def example_fromtimestamp_def timedelta_days_def DAY_def)

theorem task_func_series_witness:
  "is_list_of_str (PyList [PyStr ''A'', PyStr ''B''])
   \<and> distinct (map str_value (list_items (PyList [PyStr ''A'', PyStr ''B''])))
   \<and> fromtimestamp example_env 1699827200000 = Inr 1699827200000000
   \<and> 1699827200000000 \<le> now example_env
   \<and> (\<exists>g' data fig.
         task_func example_env 0 1699827200000 (PyList [PyStr ''A'', PyStr ''B'']) 0
           = (g', Inr (data, fig))
         \<and> map fst data = [''A'', ''B'']
         \<and> (\<forall>(team, performance) \<in> set data.
               int (length performance) = 2
               \<and> (\<forall>x \<in> set performance. 1 / 10 \<le> x \<and> x \<le> 1)))"
proof -
  have v: "is_list_of_str (PyList [PyStr ''A'', PyStr ''B''])" by simp
  have d: "distinct (map str_value (list_items (PyList [PyStr ''A'', PyStr ''B''])))" by simp
  have c: "fromtimestamp example_env 1699827200000 = Inr 1699827200000000"
    and p: "1699827200000000 \<le> now example_env"
    and two: "timedelta_days (now example_env - 1699827200000000) = 2"
    using example_two_days by simp_all
  have "\<exists>g' data fig.
         task_func example_env 0 1699827200000 (PyList [PyStr ''A'', PyStr ''B'']) 0
           = (g', Inr (data, fig))
         \<and> map fst data = map str_value (list_items (PyList [PyStr ''A'', PyStr ''B'']))
         \<and> (\<forall>(team, performance) \<in> set data.
               int (length performance) = timedelta_days (now example_env - 1699827200000000)
               \<and> (\<forall>x \<in> set performance. 1 / 10 \<le> x \<and> x \<le> 1))"
    using v d c p by (rule task_func_series)
  then have "\<exists>g' data fig.
         task_func example_env 0 1699827200000 (PyList [PyStr ''A'', PyStr ''B'']) 0
           = (g', Inr (data, fig))
         \<and> map fst data = [''A'', ''B'']
         \<and> (\<forall>(team, performance) \<in> set data.
               int (length performance) = 2
               \<and> (\<forall>x \<in> set performance. 1 / 10 \<le> x \<and> x \<le> 1))"
    unfolding two by simp
  then show ?thesis using v d c p by (intro conjI)
qed

lemma example_one_day:
  "fromtimestamp example_env 1699913600000 = Inr 1699913600000000
   \<and> 1699913600000000 \<le> now example_env
   \<and> timedelta_days (now example_env - 1699913600000000) = 1"
  by (simp add: example_env_def example_fromtimestamp_def timedelta_days_def DAY_def)

lemma example_duplicate_run:
  "\<exists>g fig. task_func example_env 0 1699913600000 (PyList [PyStr ''A'', PyStr ''A'']) 0
              = (g, Inr ([(''A'', [11 / 10 + 9 / 10 * (1 / 2 ^ 53)])], fig))"
  using example_one_day
  by (simp add: task_func_def Let_def example_env_def add_at_def
        random_uniform_def random_random_def)

text \<open>
  C3 as stated fails in two ways.  A timestamp far in the past is not in the future, but
  it does not convert to a \<^verbatim>\<open>datetime\<close>, and the call raises instead of returning a
  mapping.  And with a team name that occurs twice, the two values drawn for it on a day
  are added up in the one entry of that name: here 0.55 and a little more than 0.55,
  which is above 1.0.
\<close>

theorem task_func_series_counterexample:
  "snd (task_func example_env 0 (- (10 ^ 23)) (PyList [PyStr ''A'', PyStr ''B'']) 0)
     = Inl (OverflowError ''timestamp out of range for platform time_t'')
   \<and> is_list_of_str (PyList [PyStr ''A'', PyStr ''A''])
   \<and> fromtimestamp example_env 1699913600000 = Inr 1699913600000000
   \<and> 1699913600000000 \<le> now example_env
   \<and> (\<exists>g fig. task_func example_env 0 1699913600000 (PyList [PyStr ''A'', PyStr ''A'']) 0
                 = (g, Inr ([(''A'', [11 / 10 + 9 / 10 * (1 / 2 ^ 53)])], fig)))
   \<and> (1::real) < 11 / 10 + 9 / 10 * (1 / 2 ^ 53)"
proof -
  have "snd (task_func example_env 0 (- (10 ^ 23)) (PyList [PyStr ''A'', PyStr ''B'']) 0)
     = Inl (OverflowError ''timestamp out of range for platform time_t'')"
    by (simp add: task_func_def example_env_def example_fromtimestamp_def)
  moreover have "(1::real) < 11 / 10 + 9 / 10 * (1 / 2 ^ 53)" by simp
  moreover have "is_list_of_str (PyList [PyStr ''A'', PyStr ''A''])" by simp
  moreover have "fromtimestamp example_env 1699913600000 = Inr 1699913600000000"
    and "1699913600000000 \<le> now example_env"
    using example_one_day by simp_all
  ultimately show ?thesis
    using example_duplicate_run by (intro conjI)
qed

subsection \<open>Validation\<close>

text \<open>
  C2 (amended).  A \<open>teams\<close> argument that is not a list of strings always raises
  \<^verbatim>\<open>TypeError\<close>, also when the timestamp lies in the future; a timestamp whose start
  time lies after the current time raises \<^verbatim>\<open>ValueError\<close> when \<open>teams\<close> is a list of
  strings.  In both cases the generator is left in the state set by \<^verbatim>\<open>random.seed\<close>:
  no random value has been drawn.
\<close>

theorem task_func_validation:
  "(\<not> is_list_of_str teams
      \<longrightarrow> task_func env g0 epoch_milliseconds teams random_seed
            = (seed env random_seed, Inl (TypeError ''Expected teams to be list of str'')))
   \<and> (is_list_of_str teams \<and> fromtimestamp env epoch_milliseconds = Inr start_time
        \<and> now env < start_time
      \<longrightarrow> task_func env g0 epoch_milliseconds teams random_seed
            = (seed env random_seed, Inl (ValueError ''Input epoch timestamp is in the future!'')))"
proof (intro conjI impI)
  assume "\<not> is_list_of_str teams"
  then show "task_func env g0 epoch_milliseconds teams random_seed
            = (seed env random_seed, Inl (TypeError ''Expected teams to be list of str''))"
    by (simp add: task_func_def)
next
  assume a: "is_list_of_str teams \<and> fromtimestamp env epoch_milliseconds = Inr start_time
        \<and> now env < start_time"
  then have "timedelta_days (now env - start_time) < 0"
    by (intro timedelta_days_neg) simp
  then show "task_func env g0 epoch_milliseconds teams random_seed
            = (seed env random_seed, Inl (ValueError ''Input epoch timestamp is in the future!''))"
    using a by (simp add: task_func_def)
qed

lemma example_future:
  "fromtimestamp example_env 1700000000001 = Inr 1700000000001000
   \<and> now example_env < 1700000000001000"
  by (simp add: example_env_def example_fromtimestamp_def)

theorem task_func_validation_witness:
  "\<not> is_list_of_str (PyList [PyInt 1, PyInt 2, PyInt 3])
   \<and> task_func example_env 0 1631295600000 (PyList [PyInt 1, PyInt 2, PyInt 3]) 42
       = (seed example_env 42, Inl (TypeError ''Expected teams to be list of str''))
   \<and> is_list_of_str (PyList [PyStr ''A'', PyStr ''B''])
   \<and> fromtimestamp example_env 1700000000001 = Inr 1700000000001000
   \<and> now example_env < 1700000000001000
   \<and> task_func example_env 0 1700000000001 (PyList [PyStr ''A'', PyStr ''B'']) 42
       = (seed example_env 42, Inl (ValueError ''Input epoch timestamp is in the future!''))"
proof -
  have bad: "\<not> is_list_of_str (PyList [PyInt 1, PyInt 2, PyInt 3])" by simp
  have good: "is_list_of_str (PyList [PyStr ''A'', PyStr ''B''])" by simp
  have fut: "fromtimestamp example_env 1700000000001 = Inr 1700000000001000"
    and fut': "now example_env < 1700000000001000"
    using example_future by simp_all
  have a: "task_func example_env 0 1631295600000 (PyList [PyInt 1, PyInt 2, PyInt 3]) 42
       = (seed example_env 42, Inl (TypeError ''Expected teams to be list of str''))"
    using task_func_validation
            [where teams = "PyList [PyInt 1, PyInt 2, PyInt 3]" and env = example_env
               and ?g0.0 = 0 and epoch_milliseconds = 1631295600000 and random_seed = 42,
             THEN conjunct1]
      bad
    by (rule mp)
  have hyp: "is_list_of_str (PyList [PyStr ''A'', PyStr ''B''])
        \<and> fromtimestamp example_env 1700000000001 = Inr 1700000000001000
        \<and> now example_env < 1700000000001000"
    using good fut fut' by (intro conjI)
  have b: "task_func example_env 0 1700000000001 (PyList [PyStr ''A'', PyStr ''B'']) 42
       = (seed example_env 42, Inl (ValueError ''Input epoch timestamp is in the future!''))"
    using task_func_validation
            [where teams = "PyList [PyStr ''A'', PyStr ''B'']" and env = example_env
               and ?g0.0 = 0 and epoch_milliseconds = 1700000000001 and random_seed = 42
               and start_time = 1700000000001000,
             THEN conjunct2]
      hyp
    by (rule mp)
  show ?thesis using bad good a b fut fut' by (intro conjI)
qed

text \<open>
  C2 as stated fails: with a timestamp in the future and a \<open>teams\<close> argument that is
  not a list of strings, the exception is \<^verbatim>\<open>TypeError\<close>, not \<^verbatim>\<open>ValueError\<close>.
\<close>

theorem task_func_future_type_error_counterexample:
  "fromtimestamp example_env 1700000000001 = Inr 1700000000001000
   \<and> now example_env < 1700000000001000
   \<and> snd (task_func example_env 0 1700000000001 (PyList [PyInt 1, PyInt 2, PyInt 3]) 0)
       = Inl (TypeError ''Expected teams to be list of str'')
   \<and> snd (task_func example_env 0 1700000000001 (PyList [PyInt 1, PyInt 2, PyInt 3]) 0)
       \<noteq> Inl (ValueError ''Input epoch timestamp is in the future!'')"
  using example_future by (simp add: task_func_def)

subsection \<open>Reproducibility\<close>

lemma draws_by_team_and_day:
  fixes k days :: nat
  shows "(\<forall>j < k. \<forall>i < days. P (i * k + j)) \<longleftrightarrow> (\<forall>n < days * k. P n)"
proof
  assume a: "\<forall>j < k. \<forall>i < days. P (i * k + j)"
  show "\<forall>n < days * k. P n"
  proof (intro allI impI)
    fix n assume n: "n < days * k"
    then have k: "0 < k" by (cases k) simp_all
    have "n mod k < k" using k by simp
    moreover have "n div k < days" using n k by (simp add: less_mult_imp_div_less)
    ultimately have "P (n div k * k + n mod k)" using a by blast
    then show "P n" by simp
  qed
next
  assume a: "\<forall>n < days * k. P n"
  show "\<forall>j < k. \<forall>i < days. P (i * k + j)"
  proof (intro allI impI)
    fix j i assume j: "j < k" and i: "i < days"
    have "i * k + j < Suc i * k" using j by simp
    also have "\<dots> \<le> days * k" using i by (intro mult_le_mono1) simp
    finally show "P (i * k + j)" using a by blast
  qed
qed

lemma series_data_eq:
  "map (\<lambda>j. (names ! j, series gen g1 k days j)) [0..<k]
     = map (\<lambda>j. (names ! j, series gen g2 k days j)) [0..<k]
   \<longleftrightarrow> (\<forall>n < days * k. nth_draw gen g1 n = nth_draw gen g2 n)"
proof -
  have "map (\<lambda>j. (names ! j, series gen g1 k days j)) [0..<k]
          = map (\<lambda>j. (names ! j, series gen g2 k days j)) [0..<k]
        \<longleftrightarrow> (\<forall>j < k. series gen g1 k days j = series gen g2 k days j)"
    by (auto simp: map_eq_conv)
  also have "\<dots> \<longleftrightarrow> (\<forall>j < k. \<forall>i < days. nth_draw gen g1 (i * k + j) = nth_draw gen g2 (i * k + j))"
    by (auto simp: series_def map_eq_conv)
  also have "\<dots> \<longleftrightarrow> (\<forall>n < days * k. nth_draw gen g1 n = nth_draw gen g2 n)"
    by (rule draws_by_team_and_day)
  finally show ?thesis .
qed

text \<open>
  C4 (amended).  Two runs with the same timestamp, team list, seed and current time give
  the same result, whatever state the generator was in before each call.  Of two runs
  that differ only in the seed: when the whole-day difference is 0 they return the same
  mapping; and for a list of distinct team names they return the same mapping exactly when
  the two seeds give the same values of \<^verbatim>\<open>random.uniform(0.1, 1)\<close> in the first
  days times teams calls, so the mappings differ exactly when those values differ
  somewhere.
\<close>

theorem task_func_reproducible:
  "task_func env g0 epoch_milliseconds teams random_seed
     = task_func env g0' epoch_milliseconds teams random_seed
   \<and> (is_list_of_str teams \<and> fromtimestamp env epoch_milliseconds = Inr start_time
        \<and> start_time \<le> now env \<and> timedelta_days (now env - start_time) = 0
      \<longrightarrow> snd (task_func env g0 epoch_milliseconds teams seed1)
            = snd (task_func env g0' epoch_milliseconds teams seed2))
   \<and> (is_list_of_str teams \<and> distinct (map str_value (list_items teams))
        \<and> fromtimestamp env epoch_milliseconds = Inr start_time \<and> start_time \<le> now env
      \<longrightarrow> (snd (task_func env g0 epoch_milliseconds teams seed1)
              = snd (task_func env g0' epoch_milliseconds teams seed2))
            = (\<forall>n < nat (timedelta_days (now env - start_time)) * length (list_items teams).
                 nth_draw (genrand env) (seed env seed1) n
                   = nth_draw (genrand env) (seed env seed2) n))"
proof (intro conjI impI)
  show "task_func env g0 epoch_milliseconds teams random_seed
     = task_func env g0' epoch_milliseconds teams random_seed"
    by (simp add: task_func_def)
next
  assume "is_list_of_str teams \<and> fromtimestamp env epoch_milliseconds = Inr start_time
        \<and> start_time \<le> now env \<and> timedelta_days (now env - start_time) = 0"
  then show "snd (task_func env g0 epoch_milliseconds teams seed1)
            = snd (task_func env g0' epoch_milliseconds teams seed2)"
    by (simp add: task_func_def Let_def)
next
  assume a: "is_list_of_str teams \<and> distinct (map str_value (list_items teams))
        \<and> fromtimestamp env epoch_milliseconds = Inr start_time \<and> start_time \<le> now env"
  then have v: "is_list_of_str teams" and d: "distinct (map str_value (list_items teams))"
    and c: "fromtimestamp env epoch_milliseconds = Inr start_time" and p: "start_time \<le> now env"
    by simp_all
  define names where "names = map str_value (list_items teams)"
  define days where "days = nat (timedelta_days (now env - start_time))"
  define data where
    "data = (\<lambda>s. map (\<lambda>j. (names ! j, series (genrand env) (seed env s) (length names) days j))
                   [0..<length names])"
  define fig where
    "fig = (\<lambda>s. \<lparr>plot_lines = map (\<lambda>(team, performance). (team, [0..<days], performance))
                                  (data s),
                 x_label = ''Days since '' @ strftime env start_time,
                 y_label = ''Performance''\<rparr>)"
  have run: "snd (task_func env g epoch_milliseconds teams s) = Inr (data s, fig s)" for g s
    using task_func_distinct [OF v d c p, of g s]
    by (simp add: Let_def names_def days_def data_def fig_def)
  have "(snd (task_func env g0 epoch_milliseconds teams seed1)
              = snd (task_func env g0' epoch_milliseconds teams seed2))
        \<longleftrightarrow> data seed1 = data seed2"
    by (auto simp: run fig_def)
  also have "\<dots> \<longleftrightarrow> (\<forall>n < days * length names.
                 nth_draw (genrand env) (seed env seed1) n
                   = nth_draw (genrand env) (seed env seed2) n)"
    unfolding data_def by (rule series_data_eq)
  finally show "(snd (task_func env g0 epoch_milliseconds teams seed1)
              = snd (task_func env g0' epoch_milliseconds teams seed2))
            = (\<forall>n < nat (timedelta_days (now env - start_time)) * length (list_items teams).
                 nth_draw (genrand env) (seed env seed1) n
                   = nth_draw (genrand env) (seed env seed2) n)"
    by (simp add: days_def names_def)
qed

lemma example_same_day:
  "fromtimestamp example_env 1699999999995 = Inr 1699999999995000
   \<and> 1699999999995000 \<le> now example_env
   \<and> timedelta_days (now example_env - 1699999999995000) = 0"
  by (simp add: example_env_def example_fromtimestamp_def timedelta_days_def DAY_def)

lemma example_first_draws:
  "nth_draw (genrand example_env) (seed example_env 0) 0 = 11 / 20
   \<and> nth_draw (genrand example_env) (seed example_env 1) 0 = 11 / 20 + 9 / 10 * (1000 / 2 ^ 53)"
  by (simp add: nth_draw_def random_uniform_def random_random_def example_env_def
        add_divide_distrib distrib_left)

theorem task_func_reproducible_witness:
  "is_list_of_str (PyList [PyStr ''A'', PyStr ''B''])
   \<and> distinct (map str_value (list_items (PyList [PyStr ''A'', PyStr ''B''])))
   \<and> fromtimestamp example_env 1699999999995 = Inr 1699999999995000
   \<and> 1699999999995000 \<le> now example_env
   \<and> timedelta_days (now example_env - 1699999999995000) = 0
   \<and> snd (task_func example_env 0 1699999999995 (PyList [PyStr ''A'', PyStr ''B'']) 0)
       = snd (task_func example_env 7 1699999999995 (PyList [PyStr ''A'', PyStr ''B'']) 1)
   \<and> fromtimestamp example_env 1699913600000 = Inr 1699913600000000
   \<and> 1699913600000000 \<le> now example_env
   \<and> snd (task_func example_env 0 1699913600000 (PyList [PyStr ''A'', PyStr ''B'']) 0)
       \<noteq> snd (task_func example_env 7 1699913600000 (PyList [PyStr ''A'', PyStr ''B'']) 1)"
proof -
  let ?teams = "PyList [PyStr ''A'', PyStr ''B'']"
  have v: "is_list_of_str ?teams" by simp
  have d: "distinct (map str_value (list_items ?teams))" by simp
  have c0: "fromtimestamp example_env 1699999999995 = Inr 1699999999995000"
    and p0: "1699999999995000 \<le> now example_env"
    and z0: "timedelta_days (now example_env - 1699999999995000) = 0"
    using example_same_day by simp_all
  have c1: "fromtimestamp example_env 1699913600000 = Inr 1699913600000000"
    and p1: "1699913600000000 \<le> now example_env"
    and z1: "timedelta_days (now example_env - 1699913600000000) = 1"
    using example_one_day by simp_all
  have h0: "is_list_of_str ?teams \<and> fromtimestamp example_env 1699999999995 = Inr 1699999999995000
        \<and> 1699999999995000 \<le> now example_env
        \<and> timedelta_days (now example_env - 1699999999995000) = 0"
    using v c0 p0 z0 by (intro conjI)
  have same: "snd (task_func example_env 0 1699999999995 ?teams 0)
       = snd (task_func example_env 7 1699999999995 ?teams 1)"
    using task_func_reproducible
            [where env = example_env and teams = ?teams and epoch_milliseconds = 1699999999995
               and start_time = 1699999999995000 and ?g0.0 = 0 and g0' = 7
               and ?seed1.0 = 0 and ?seed2.0 = 1,
             THEN conjunct2, THEN conjunct1]
      h0
    by (rule mp)
  have h1: "is_list_of_str ?teams \<and> distinct (map str_value (list_items ?teams))
        \<and> fromtimestamp example_env 1699913600000 = Inr 1699913600000000
        \<and> 1699913600000000 \<le> now example_env"
    using v d c1 p1 by (intro conjI)
  have iff: "(snd (task_func example_env 0 1699913600000 ?teams 0)
              = snd (task_func example_env 7 1699913600000 ?teams 1))
            = (\<forall>n < nat (timedelta_days (now example_env - 1699913600000000))
                       * length (list_items ?teams).
                 nth_draw (genrand example_env) (seed example_env 0) n
                   = nth_draw (genrand example_env) (seed example_env 1) n)"
    using task_func_reproducible
            [where env = example_env and teams = ?teams and epoch_milliseconds = 1699913600000
               and start_time = 1699913600000000 and ?g0.0 = 0 and g0' = 7
               and ?seed1.0 = 0 and ?seed2.0 = 1,
             THEN conjunct2, THEN conjunct2]
      h1
    by (rule mp)
  have "\<not> (\<forall>n < nat (timedelta_days (now example_env - 1699913600000000))
                       * length (list_items ?teams).
                 nth_draw (genrand example_env) (seed example_env 0) n
                   = nth_draw (genrand example_env) (seed example_env 1) n)"
  proof
    assume "\<forall>n < nat (timedelta_days (now example_env - 1699913600000000))
                       * length (list_items ?teams).
                 nth_draw (genrand example_env) (seed example_env 0) n
                   = nth_draw (genrand example_env) (seed example_env 1) n"
    then have "nth_draw (genrand example_env) (seed example_env 0) 0
                 = nth_draw (genrand example_env) (seed example_env 1) 0"
      by (simp add: z1)
    then show False using example_first_draws by simp
  qed
  then have differ: "snd (task_func example_env 0 1699913600000 ?teams 0)
       \<noteq> snd (task_func example_env 7 1699913600000 ?teams 1)"
    using iff by simp
  show ?thesis using v d c0 p0 z0 same c1 p1 differ by (intro conjI)
qed

text \<open>
  C4 as stated fails in its second half: for a start time less than a day before the
  current time, the runs with the seeds 0 and 1 return the same mapping, although the two
  seeds give different values.
\<close>

theorem task_func_seed_counterexample:
  "nth_draw (genrand example_env) (seed example_env 0) 0
     \<noteq> nth_draw (genrand example_env) (seed example_env 1) 0
   \<and> (\<exists>g fig. task_func example_env 0 1699999999995 (PyList [PyStr ''A'', PyStr ''B'']) 0
                 = (g, Inr ([(''A'', []), (''B'', [])], fig)))
   \<and> snd (task_func example_env 0 1699999999995 (PyList [PyStr ''A'', PyStr ''B'']) 0)
       = snd (task_func example_env 0 1699999999995 (PyList [PyStr ''A'', PyStr ''B'']) 1)"
proof -
  have "nth_draw (genrand example_env) (seed example_env 0) 0
     \<noteq> nth_draw (genrand example_env) (seed example_env 1) 0"
    using example_first_draws by simp
  moreover have "\<exists>g fig. task_func example_env 0 1699999999995 (PyList [PyStr ''A'', PyStr ''B'']) 0
                 = (g, Inr ([(''A'', []), (''B'', [])], fig))"
    using example_same_day by (simp add: task_func_def)
  moreover have "snd (task_func example_env 0 1699999999995 (PyList [PyStr ''A'', PyStr ''B'']) 0)
       = snd (task_func example_env 0 1699999999995 (PyList [PyStr ''A'', PyStr ''B'']) 1)"
    using example_same_day by (simp add: task_func_def)
  ultimately show ?thesis by (intro conjI)
qed

section \<open>Properties of \<open>f_235\<close>\<close>

subsection \<open>The z-score of finite numbers\<close>







subsection \<open>Constant and other columns\<close>








subsection \<open>The columns of the tables\<close>







end
